theory Spec2Isabelle
  imports Complex_Main "HOL-Library.Sublist"
begin

section \<open>Python strings\<close>

text \<open>
  A Python \<open>str\<close> is a sequence of code points. The model uses \<open>string\<close>, so it covers the
  code points below 256; the character classes below are Python's \<open>str.isspace\<close>,
  \<open>str.isdigit\<close> and \<open>str.lower\<close> on that range. Python floats are modelled as reals.
\<close>

definition isspace :: "char \<Rightarrow> bool" where
  "isspace c = (let n = (of_char c :: nat) in
     (9 \<le> n \<and> n \<le> 13) \<or> (28 \<le> n \<and> n \<le> 32) \<or> n = 133 \<or> n = 160)"

definition isdigit :: "char \<Rightarrow> bool" where
  "isdigit c = (let n = (of_char c :: nat) in
     (48 \<le> n \<and> n \<le> 57) \<or> n = 178 \<or> n = 179 \<or> n = 185)"

definition lower_char :: "char \<Rightarrow> char" where
  "lower_char c = (let n = (of_char c :: nat) in
     if (65 \<le> n \<and> n \<le> 90) \<or> (192 \<le> n \<and> n \<le> 222 \<and> n \<noteq> 215)
     then char_of (n + 32) else c)"

definition lower :: "string \<Rightarrow> string" where
  "lower s = map lower_char s"

text \<open>\<open>s.strip()\<close>: whitespace removed at both ends.\<close>

definition strip :: "string \<Rightarrow> string" where
  "strip s = rev (dropWhile isspace (rev (dropWhile isspace s)))"

text \<open>\<open>s.split()\<close>: the maximal runs of non-whitespace characters.\<close>

function split_ws :: "string \<Rightarrow> string list" where
  "split_ws s = (case dropWhile isspace s of
       [] \<Rightarrow> []
     | c # t \<Rightarrow> takeWhile (\<lambda>x. \<not> isspace x) (c # t)
               # split_ws (dropWhile (\<lambda>x. \<not> isspace x) (c # t)))"
  by pat_completeness auto
termination
proof (relation "measure length", goal_cases)
  case 1
  show ?case by simp
next
  case (2 s c t)
  have nsp: "\<not> isspace c"
    using 2 hd_dropWhile [of isspace s] by (metis list.distinct(1) list.sel(1))
  have "length (dropWhile (\<lambda>x. \<not> isspace x) t) \<le> length t"
    by (rule length_dropWhile_le)
  with nsp have "length (dropWhile (\<lambda>x. \<not> isspace x) (c # t)) < length (c # t)"
    by simp
  moreover have "length (c # t) \<le> length s"
    using 2 length_dropWhile_le [of isspace s] by simp
  ultimately show ?case by simp
qed

declare split_ws.simps [simp del]

text \<open>\<open>s.split('\n')\<close>: always at least one piece.\<close>

fun split_lines :: "string \<Rightarrow> string list" where
  "split_lines [] = [[]]"
| "split_lines (c # cs) =
     (if c = CHR 0x0A then [] # split_lines cs
      else (case split_lines cs of
              [] \<Rightarrow> [[c]]
            | l # ls \<Rightarrow> (c # l) # ls))"

text \<open>\<open>sep.join(xs)\<close>.\<close>

fun join :: "string \<Rightarrow> string list \<Rightarrow> string" where
  "join sep [] = []"
| "join sep [x] = x"
| "join sep (x # y # ys) = x @ sep @ join sep (y # ys)"

text \<open>\<open>p in s\<close> for strings: \<open>p\<close> occurs as a contiguous substring.\<close>

fun contains :: "string \<Rightarrow> string \<Rightarrow> bool" where
  "contains p [] = (p = [])"
| "contains p (c # cs) = (prefix p (c # cs) \<or> contains p cs)"

text \<open>\<open>str(n)\<close> for a non-negative integer.\<close>

definition digit_char :: "nat \<Rightarrow> char" where
  "digit_char d = ''0123456789'' ! d"

fun str_nat :: "nat \<Rightarrow> string" where
  "str_nat n = (if n < 10 then [digit_char n] else str_nat (n div 10) @ [digit_char (n mod 10)])"

declare str_nat.simps [simp del]

datatype py_error = OSError | FileNotFoundError | ValueError

section \<open>The audit log (retrieve.py, validator.py)\<close>

text \<open>
  Both log writers open a per-day file in append mode and write one line. The file
  system is a map from file names to the lines written so far; \<open>writable\<close> says whether
  opening and writing succeeds, and a failing write raises \<open>OSError\<close>.
\<close>

record 'e log_dir =
  writable :: bool
  files :: "string \<Rightarrow> 'e list option"

definition append_line :: "'e log_dir \<Rightarrow> string \<Rightarrow> 'e \<Rightarrow> py_error + 'e log_dir" where
  "append_line fs path e =
     (if writable fs
      then Inr (fs\<lparr>files := (files fs)(path \<mapsto> (case files fs path of None \<Rightarrow> [] | Some ls \<Rightarrow> ls) @ [e])\<rparr>)
      else Inl OSError)"

text \<open>The clock: \<open>datetime.utcnow().isoformat()\<close> and \<open>strftime('%Y%m%d')\<close>.\<close>

record clock =
  now_iso :: string
  today :: string

section \<open>Retrieved chunks\<close>

text \<open>
  A retrieved chunk is a dictionary with the keys \<open>chunk_id\<close>, \<open>chunk_text\<close>, \<open>metadata\<close>,
  \<open>distance\<close>, \<open>similarity\<close>, \<open>rank\<close> and, once boosted, \<open>boosted_similarity\<close> and
  \<open>priority_boost\<close>. Metadata values are the scalar kinds the vector store accepts.
\<close>

datatype mvalue = MStr string | MInt int | MBool bool | MFloat real

fun truthy :: "mvalue \<Rightarrow> bool" where
  "truthy (MStr s) = (s \<noteq> [])"
| "truthy (MInt i) = (i \<noteq> 0)"
| "truthy (MBool b) = b"
| "truthy (MFloat r) = (r \<noteq> 0)"

type_synonym meta_dict = "(string \<times> mvalue) list"

record retrieved_chunk =
  rc_chunk_id :: string
  rc_chunk_text :: string
  rc_metadata :: meta_dict
  distance :: real
  similarity :: real
  rank :: nat
  boosted_similarity :: "real option"
  priority_boost :: "real option"

section \<open>Step validator (validator.py)\<close>

datatype confidence = HIGH | MEDIUM | LOW
datatype support_type = Textual | Symbolic | NoSupport
datatype status = PASSED | PARTIAL | FAILED

text \<open>
  The validator's configuration, together with the external capabilities it calls:
  \<open>cosine_sim step chunk\<close> is the cosine similarity of the encoder's embeddings of the two
  texts, \<open>extract_math_expressions\<close> the regular-expression extraction of candidate
  expressions, and \<open>are_symbolically_equivalent\<close> the computer-algebra comparison.
\<close>

record StepValidator =
  sim_threshold :: real
  min_ngram_overlap :: int
  cosine_sim :: "string \<Rightarrow> string \<Rightarrow> real"
  extract_math_expressions :: "string \<Rightarrow> string list"
  are_symbolically_equivalent :: "string \<Rightarrow> string \<Rightarrow> bool"

text \<open>The defaults of \<open>StepValidator.__init__\<close>.\<close>

definition default_sim_threshold :: real where
  "default_sim_threshold = 78 / 100"

definition default_min_ngram_overlap :: int where
  "default_min_ngram_overlap = 6"

record SolutionStep =
  step_num :: nat
  step_text :: string
  citations :: "string list"
  unsupported :: bool

text \<open>\<open>_compute_ngram_overlap\<close>: the number of word n-grams the two texts share.\<close>

definition ngrams :: "nat \<Rightarrow> string list \<Rightarrow> string set" where
  "ngrams n tokens =
     set (map (\<lambda>i. join '' '' (take n (drop i tokens))) [0 ..< length tokens + 1 - n])"

definition compute_ngram_overlap :: "string \<Rightarrow> string \<Rightarrow> nat \<Rightarrow> nat" where
  "compute_ngram_overlap text1 text2 n =
     (let tokens1 = split_ws (lower text1);
          tokens2 = split_ws (lower text2);
          ngrams1 = ngrams n tokens1;
          ngrams2 = ngrams n tokens2
      in card (ngrams1 \<inter> ngrams2))"

text \<open>\<open>np.argmax\<close>: the index of the first maximum.\<close>

fun argmax_from :: "real list \<Rightarrow> nat \<Rightarrow> nat \<Rightarrow> real \<Rightarrow> nat" where
  "argmax_from [] i bi bv = bi"
| "argmax_from (x # xs) i bi bv =
     (if bv < x then argmax_from xs (Suc i) i x else argmax_from xs (Suc i) bi bv)"

definition argmax :: "real list \<Rightarrow> nat" where
  "argmax xs = (case xs of [] \<Rightarrow> 0 | x # rest \<Rightarrow> argmax_from rest 1 0 x)"

record text_support =
  ts_supported :: bool
  ts_similarity :: real
  ts_token_overlap :: "nat option"
  ts_confidence :: confidence
  ts_chunk_id :: "string option"

definition check_textual_support ::
  "StepValidator \<Rightarrow> string \<Rightarrow> string list \<Rightarrow> retrieved_chunk list \<Rightarrow> text_support" where
  "check_textual_support v step chunk_texts chunks_metadata =
     (if chunk_texts = [] then
        \<lparr>ts_supported = False, ts_similarity = 0, ts_token_overlap = None,
         ts_confidence = LOW, ts_chunk_id = None\<rparr>
      else
        let similarities = map (cosine_sim v step) chunk_texts;
            best_idx = argmax similarities;
            best_similarity = similarities ! best_idx;
            best_chunk = chunk_texts ! best_idx;
            overlap = compute_ngram_overlap step best_chunk 3;
            supported = (best_similarity \<ge> sim_threshold v \<and> int overlap \<ge> min_ngram_overlap v);
            conf = (if best_similarity \<ge> 85 / 100 then HIGH
                    else if best_similarity \<ge> sim_threshold v then MEDIUM
                    else LOW)
        in \<lparr>ts_supported = supported, ts_similarity = best_similarity,
            ts_token_overlap = Some overlap, ts_confidence = conf,
            ts_chunk_id = (if chunks_metadata \<noteq> []
                           then Some (rc_chunk_id (chunks_metadata ! best_idx)) else None)\<rparr>)"

record symbolic_support =
  ss_supported :: bool
  ss_confidence :: confidence
  ss_chunk_id :: "string option"

text \<open>
  \<open>_check_symbolic_support\<close>: the first chunk (in order) holding an expression equivalent
  to one of the step's expressions; its position \<open>i\<close> is reported as \<open>chunk_i\<close>.
\<close>

fun symbolic_scan :: "StepValidator \<Rightarrow> string list \<Rightarrow> string list \<Rightarrow> nat \<Rightarrow> symbolic_support" where
  "symbolic_scan v step_expressions [] i =
     \<lparr>ss_supported = False, ss_confidence = LOW, ss_chunk_id = None\<rparr>"
| "symbolic_scan v step_expressions (chunk_text # rest) i =
     (if list_ex (\<lambda>step_expr.
            list_ex (\<lambda>chunk_expr. are_symbolically_equivalent v step_expr chunk_expr)
              (extract_math_expressions v chunk_text)) step_expressions
      then \<lparr>ss_supported = True, ss_confidence = HIGH, ss_chunk_id = Some (''chunk_'' @ str_nat i)\<rparr>
      else symbolic_scan v step_expressions rest (Suc i))"

definition check_symbolic_support :: "StepValidator \<Rightarrow> string \<Rightarrow> string list \<Rightarrow> symbolic_support" where
  "check_symbolic_support v step chunk_texts =
     (let step_expressions = extract_math_expressions v step in
      if step_expressions = [] then
        \<lparr>ss_supported = False, ss_confidence = LOW, ss_chunk_id = None\<rparr>
      else symbolic_scan v step_expressions chunk_texts 0)"

record step_result =
  sr_supported :: bool
  sr_support_type :: support_type
  sr_confidence :: confidence
  sr_best_similarity :: real
  sr_best_chunk_id :: "string option"

definition validate_step ::
  "StepValidator \<Rightarrow> string \<Rightarrow> string list \<Rightarrow> retrieved_chunk list \<Rightarrow> step_result" where
  "validate_step v step chunk_texts chunks_metadata =
     (let text_support = check_textual_support v step chunk_texts chunks_metadata;
          symbolic_support = check_symbolic_support v step chunk_texts
      in if ts_supported text_support then
           \<lparr>sr_supported = True, sr_support_type = Textual,
            sr_confidence = ts_confidence text_support,
            sr_best_similarity = ts_similarity text_support,
            sr_best_chunk_id = ts_chunk_id text_support\<rparr>
         else if ss_supported symbolic_support then
           \<lparr>sr_supported = True, sr_support_type = Symbolic,
            sr_confidence = ss_confidence symbolic_support,
            sr_best_similarity = 0,
            sr_best_chunk_id = ss_chunk_id symbolic_support\<rparr>
         else
           \<lparr>sr_supported = False, sr_support_type = NoSupport,
            sr_confidence = LOW,
            sr_best_similarity = ts_similarity text_support,
            sr_best_chunk_id = ts_chunk_id text_support\<rparr>)"

record step_validation =
  sv_step_num :: nat
  sv_step_text :: string
  supported :: bool
  support_type :: support_type
  confidence :: confidence
  best_match_similarity :: real
  best_match_chunk :: "string option"
  citations_found :: "string list"
  unsupported_flag :: bool

record solution_validation =
  status :: status
  message :: string
  mode :: string
  all_supported :: bool
  step_validations :: "step_validation list"
  total_steps :: nat
  supported_steps :: nat

text \<open>The record \<open>validate_solution\<close> appends for one validated step.\<close>

definition validation_record :: "SolutionStep \<Rightarrow> step_result \<Rightarrow> step_validation" where
  "validation_record step step_validation =
     \<lparr>sv_step_num = step_num step, sv_step_text = step_text step,
      supported = sr_supported step_validation,
      support_type = sr_support_type step_validation,
      confidence = sr_confidence step_validation,
      best_match_similarity = sr_best_similarity step_validation,
      best_match_chunk = sr_best_chunk_id step_validation,
      citations_found = citations step,
      unsupported_flag = unsupported step\<rparr>"

text \<open>
  The loop of \<open>validate_solution\<close> over the steps: a step whose text is empty after
  \<open>strip\<close> is skipped; every other step appends one record and may clear \<open>all_supported\<close>.
\<close>

fun validate_steps ::
  "StepValidator \<Rightarrow> string list \<Rightarrow> retrieved_chunk list \<Rightarrow> SolutionStep list \<Rightarrow>
   step_validation list \<Rightarrow> bool \<Rightarrow> step_validation list \<times> bool" where
  "validate_steps v chunk_texts retrieved_chunks [] validation_results all_sup =
     (validation_results, all_sup)"
| "validate_steps v chunk_texts retrieved_chunks (step # rest) validation_results all_sup =
     (if strip (step_text step) = [] then
        validate_steps v chunk_texts retrieved_chunks rest validation_results all_sup
      else
        let step_validation = validate_step v (step_text step) chunk_texts retrieved_chunks in
        validate_steps v chunk_texts retrieved_chunks rest
          (validation_results @ [validation_record step step_validation])
          (if \<not> sr_supported step_validation then False else all_sup))"

record validation_log_entry =
  vl_timestamp :: string
  vl_status :: status
  vl_mode :: string
  vl_total_steps :: nat
  vl_supported_steps :: nat
  vl_step_details :: "step_validation list"

definition log_validation ::
  "clock \<Rightarrow> validation_log_entry log_dir \<Rightarrow> solution_validation \<Rightarrow>
   py_error + validation_log_entry log_dir" where
  "log_validation clk fs validation_result =
     (let log_entry = \<lparr>vl_timestamp = now_iso clk, vl_status = status validation_result,
                        vl_mode = mode validation_result,
                        vl_total_steps = total_steps validation_result,
                        vl_supported_steps = supported_steps validation_result,
                        vl_step_details = step_validations validation_result\<rparr>;
          log_filename = ''validation_'' @ today clk @ ''.jsonl''
      in append_line fs log_filename log_entry)"

text \<open>The result dictionary \<open>validate_solution\<close> builds before it writes the log.\<close>

definition validation_result ::
  "StepValidator \<Rightarrow> SolutionStep list \<Rightarrow> retrieved_chunk list \<Rightarrow> string \<Rightarrow> solution_validation" where
  "validation_result v solution_steps retrieved_chunks md =
     (let chunk_texts = map rc_chunk_text retrieved_chunks;
          (validation_results, all_sup) =
             validate_steps v chunk_texts retrieved_chunks solution_steps [] True;
          supported_count = length (filter supported validation_results);
          total_count = length validation_results;
          (st, msg) =
            (if md = ''strict'' \<and> \<not> all_sup then
               (FAILED, ''No supported solution found in resources.'')
             else if md = ''strict'' \<and> all_sup then
               (PASSED, ''All steps validated against resources.'')
             else
               (if supported_count < total_count then PARTIAL else PASSED,
                str_nat supported_count @ ''/'' @ str_nat total_count
                  @ '' steps supported by resources.''))
      in \<lparr>status = st, message = msg, mode = md, all_supported = all_sup,
          step_validations = validation_results,
          total_steps = length validation_results,
          supported_steps = length (filter supported validation_results)\<rparr>)"

definition validate_solution ::
  "StepValidator \<Rightarrow> clock \<Rightarrow> validation_log_entry log_dir \<Rightarrow> SolutionStep list \<Rightarrow>
   retrieved_chunk list \<Rightarrow> string \<Rightarrow> py_error + (solution_validation \<times> validation_log_entry log_dir)" where
  "validate_solution v clk fs solution_steps retrieved_chunks md =
     (let result = validation_result v solution_steps retrieved_chunks md in
      case log_validation clk fs result of
        Inl e \<Rightarrow> Inl e
      | Inr fs' \<Rightarrow> Inr (result, fs'))"

section \<open>Chunker (ingest.py)\<close>

text \<open>
  The tokenizer is an external capability: \<open>encode\<close> maps a text to token ids and
  \<open>decode\<close> maps token ids back to text.
\<close>

record tokenizer =
  encode :: "string \<Rightarrow> nat list"
  decode :: "nat list \<Rightarrow> string"

record DocumentIngestor =
  chunk_size :: int
  chunk_overlap :: int
  tokenizer :: tokenizer

text \<open>\<open>DocumentIngestor.__init__\<close> stores its arguments; it checks nothing.\<close>

definition init_ingestor :: "tokenizer \<Rightarrow> int \<Rightarrow> int \<Rightarrow> py_error + DocumentIngestor" where
  "init_ingestor tk sz ov = Inr \<lparr>chunk_size = sz, chunk_overlap = ov, tokenizer = tk\<rparr>"

record DocumentChunk =
  chunk_id :: string
  filename :: string
  page :: nat
  chunk_text :: string
  token_count :: nat
  chunk_index :: nat
  file_type :: string
  priority :: string
  trusted :: bool
  metadata :: meta_dict

text \<open>\<open>xs[start:stop]\<close> with Python's clamping and negative indices.\<close>

definition py_clamp :: "int \<Rightarrow> int \<Rightarrow> int" where
  "py_clamp n i = (if i < 0 then max (i + n) 0 else min i n)"

definition py_slice :: "'a list \<Rightarrow> int \<Rightarrow> int \<Rightarrow> 'a list" where
  "py_slice xs start stop =
     (let n = int (length xs); s = py_clamp n start; e = py_clamp n stop
      in take (nat (e - s)) (drop (nat s) xs))"

text \<open>The chunk built by one pass of the loop in \<open>_chunk_text\<close>.\<close>

definition make_chunk ::
  "DocumentIngestor \<Rightarrow> nat list \<Rightarrow> string \<Rightarrow> nat \<Rightarrow> string \<Rightarrow> string \<Rightarrow> bool \<Rightarrow>
   meta_dict option \<Rightarrow> int \<Rightarrow> nat \<Rightarrow> DocumentChunk" where
  "make_chunk ing tokens fname pg ftype prio trust md start chunk_idx =
     (let end = min (start + chunk_size ing) (int (length tokens));
          chunk_tokens = py_slice tokens start end;
          text = decode (tokenizer ing) chunk_tokens
      in \<lparr>chunk_id = fname @ ''_p'' @ str_nat pg @ ''_c'' @ str_nat chunk_idx,
          filename = fname, page = pg, chunk_text = strip text,
          token_count = length chunk_tokens, chunk_index = chunk_idx,
          file_type = ftype, priority = prio, trusted = trust,
          metadata = (case md of None \<Rightarrow> [] | Some m \<Rightarrow> m)\<rparr>)"

text \<open>
  The \<open>while start < len(tokens)\<close> loop. Nothing in the source bounds the number of passes,
  so the loop is a partial function: \<open>None\<close> means that it does not return.
\<close>

partial_function (option) chunk_loop ::
  "DocumentIngestor \<Rightarrow> nat list \<Rightarrow> (int \<Rightarrow> nat \<Rightarrow> DocumentChunk) \<Rightarrow>
   int \<Rightarrow> nat \<Rightarrow> DocumentChunk list \<Rightarrow> DocumentChunk list option" where
  "chunk_loop ing tokens mk start chunk_idx chunks =
     (if start < int (length tokens) then
        chunk_loop ing tokens mk (start + (chunk_size ing - chunk_overlap ing)) (chunk_idx + 1)
          (chunks @ [mk start chunk_idx])
      else Some chunks)"

definition chunk_text_impl ::
  "DocumentIngestor \<Rightarrow> string \<Rightarrow> string \<Rightarrow> nat \<Rightarrow> string \<Rightarrow> string \<Rightarrow> bool \<Rightarrow>
   meta_dict option \<Rightarrow> DocumentChunk list option" where
  "chunk_text_impl ing text fname pg ftype prio trust md =
     (let tokens = encode (tokenizer ing) text
      in chunk_loop ing tokens (make_chunk ing tokens fname pg ftype prio trust md) 0 0 [])"

text \<open>\<open>_ingest_text\<close>: read the file and chunk its whole content as page 1.\<close>

definition ingest_text ::
  "DocumentIngestor \<Rightarrow> (string \<Rightarrow> string option) \<Rightarrow> string \<Rightarrow> string \<Rightarrow> string \<Rightarrow> bool \<Rightarrow>
   (py_error + DocumentChunk list) option" where
  "ingest_text ing disk filepath fname prio trust =
     (case disk filepath of
        None \<Rightarrow> Some (Inl FileNotFoundError)
      | Some text \<Rightarrow> map_option Inr (chunk_text_impl ing text fname 1 ''txt'' prio trust None))"

text \<open>
  The page loop of \<open>_ingest_pdf\<close> over the extracted pages, each a text and its
  \<open>{"blocks": ...}\<close> metadata: a page whose text is empty after \<open>strip\<close> is skipped.
\<close>

fun ingest_pdf_pages ::
  "DocumentIngestor \<Rightarrow> string \<Rightarrow> string \<Rightarrow> bool \<Rightarrow> (string \<times> meta_dict) list \<Rightarrow> nat \<Rightarrow>
   DocumentChunk list \<Rightarrow> DocumentChunk list option" where
  "ingest_pdf_pages ing fname prio trust [] page_num chunks = Some chunks"
| "ingest_pdf_pages ing fname prio trust ((text, blocks) # rest) page_num chunks =
     (if strip text \<noteq> [] then
        (case chunk_text_impl ing text fname (page_num + 1) ''pdf'' prio trust (Some blocks) of
           None \<Rightarrow> None
         | Some page_chunks \<Rightarrow>
             ingest_pdf_pages ing fname prio trust rest (page_num + 1) (chunks @ page_chunks))
      else ingest_pdf_pages ing fname prio trust rest (page_num + 1) chunks)"

section \<open>Retriever (retrieve.py)\<close>

text \<open>
  The vector collection is an external capability. A query returns the hits in the
  collection's order; \<open>has_distances\<close> says whether the response carries distances.
\<close>

record hit =
  hit_id :: string
  hit_document :: string
  hit_metadata :: meta_dict
  hit_distance :: real

record query_response =
  hits :: "hit list"
  has_distances :: bool

record DocumentRetriever =
  collection_query :: "string \<Rightarrow> nat \<Rightarrow> meta_dict option \<Rightarrow> query_response"
  top_k :: nat

text \<open>
  Scores are Python floats, that is IEEE doubles. A double is modelled by the real number
  it denotes, so comparing and sorting doubles is comparing and sorting those reals. The
  arithmetic is not that of the reals: \<open>fmul\<close> and \<open>fsub\<close> stand for the rounded double
  multiplication and subtraction and are parameters of the model, so nothing below
  relies on exact arithmetic. The literals \<open>1.3\<close>, \<open>1.2\<close> and \<open>1.1\<close> denote the doubles
  nearest to them; \<open>1.0\<close> and \<open>0.0\<close> are exact.
\<close>

record float_arith =
  fmul :: "real \<Rightarrow> real \<Rightarrow> real"
  fsub :: "real \<Rightarrow> real \<Rightarrow> real"

definition double_1_3 :: real where
  "double_1_3 = 5854679515581645 / 4503599627370496"

definition double_1_2 :: real where
  "double_1_2 = 5404319552844595 / 4503599627370496"

definition double_1_1 :: real where
  "double_1_1 = 2476979795053773 / 2251799813685248"

definition priority_weights :: "(string \<times> real) list" where
  "priority_weights =
     [(''rubric'', double_1_3), (''slides'', double_1_2), (''textbook'', double_1_1),
      (''normal'', 1)]"

text \<open>
  The \<open>boost\<close> computed in the loop of \<open>_apply_priority_boost\<close>: the priority weight,
  multiplied by \<open>1.1\<close> when the chunk is trusted.
\<close>

definition boost_of :: "float_arith \<Rightarrow> meta_dict \<Rightarrow> real" where
  "boost_of fl md =
     (let prio = (case map_of md ''priority'' of None \<Rightarrow> MStr ''normal'' | Some p \<Rightarrow> p);
          trust = (case map_of md ''trusted'' of None \<Rightarrow> MBool True | Some t \<Rightarrow> t);
          boost = (case prio of
                     MStr p \<Rightarrow> (case map_of priority_weights p of None \<Rightarrow> 1 | Some w \<Rightarrow> w)
                   | _ \<Rightarrow> 1)
      in if truthy trust then fmul fl boost double_1_1 else boost)"

definition boost_chunk :: "float_arith \<Rightarrow> retrieved_chunk \<Rightarrow> retrieved_chunk" where
  "boost_chunk fl chunk =
     chunk\<lparr>boosted_similarity := Some (fmul fl (similarity chunk) (boost_of fl (rc_metadata chunk))),
           priority_boost := Some (boost_of fl (rc_metadata chunk))\<rparr>"

text \<open>
  The sort key \<open>x['boosted_similarity']\<close>; every chunk carries the key when the sort runs.
\<close>

definition boosted_key :: "retrieved_chunk \<Rightarrow> real" where
  "boosted_key chunk = (case boosted_similarity chunk of None \<Rightarrow> 0 | Some b \<Rightarrow> b)"

definition rerank :: "retrieved_chunk list \<Rightarrow> retrieved_chunk list" where
  "rerank chunks = map (\<lambda>(i, chunk). chunk\<lparr>rank := i\<rparr>) (enumerate 0 chunks)"

text \<open>
  \<open>_apply_priority_boost\<close>. Python's \<open>list.sort(key=..., reverse=True)\<close> is stable and
  descending: it orders by the keys' values, which is a stable ascending sort on the
  negated value (the negation is of the real the key denotes, not a float operation).
\<close>

definition apply_priority_boost :: "float_arith \<Rightarrow> retrieved_chunk list \<Rightarrow> retrieved_chunk list" where
  "apply_priority_boost fl chunks =
     rerank (sort_key (\<lambda>x. - boosted_key x) (map (boost_chunk fl) chunks))"

definition chunk_data :: "float_arith \<Rightarrow> bool \<Rightarrow> nat \<times> hit \<Rightarrow> retrieved_chunk" where
  "chunk_data fl with_distances ih =
     (case ih of (i, h) \<Rightarrow>
       \<lparr>rc_chunk_id = hit_id h, rc_chunk_text = hit_document h, rc_metadata = hit_metadata h,
        distance = (if with_distances then hit_distance h else 0),
        similarity = (if with_distances then fsub fl 1 (hit_distance h) else 1),
        rank = i, boosted_similarity = None, priority_boost = None\<rparr>)"

record log_result =
  lr_rank :: nat
  lr_chunk_id :: string
  lr_similarity :: real
  lr_boosted_similarity :: real
  lr_filename :: "mvalue option"
  lr_page :: "mvalue option"
  lr_priority :: "mvalue option"
  lr_trusted :: "mvalue option"

record retrieval_log_entry =
  rl_timestamp :: string
  rl_query :: string
  rl_top_k :: nat
  rl_filters :: "meta_dict option"
  rl_results :: "log_result list"

definition log_retrieval ::
  "clock \<Rightarrow> retrieval_log_entry log_dir \<Rightarrow> string \<Rightarrow> retrieved_chunk list \<Rightarrow> meta_dict option \<Rightarrow>
   py_error + retrieval_log_entry log_dir" where
  "log_retrieval clk fs q chunks filters =
     (let log_entry =
            \<lparr>rl_timestamp = now_iso clk, rl_query = q, rl_top_k = length chunks,
             rl_filters = filters,
             rl_results = map (\<lambda>chunk.
                \<lparr>lr_rank = rank chunk, lr_chunk_id = rc_chunk_id chunk,
                 lr_similarity = similarity chunk,
                 lr_boosted_similarity =
                   (case boosted_similarity chunk of None \<Rightarrow> similarity chunk | Some b \<Rightarrow> b),
                 lr_filename = map_of (rc_metadata chunk) ''filename'',
                 lr_page = map_of (rc_metadata chunk) ''page'',
                 lr_priority = map_of (rc_metadata chunk) ''priority'',
                 lr_trusted = map_of (rc_metadata chunk) ''trusted''\<rparr>) chunks\<rparr>;
          log_filename = ''retrieval_'' @ today clk @ ''.jsonl''
      in append_line fs log_filename log_entry)"

text \<open>The number of candidates \<open>retrieve\<close> asks the collection for.\<close>

definition n_results :: "nat \<Rightarrow> bool \<Rightarrow> nat" where
  "n_results k boost = (if boost then k * 2 else k)"

text \<open>The list \<open>retrieve\<close> holds when it calls the log writer.\<close>

definition retrieved_chunks ::
  "float_arith \<Rightarrow> DocumentRetriever \<Rightarrow> string \<Rightarrow> nat option \<Rightarrow> meta_dict option \<Rightarrow> bool \<Rightarrow>
   retrieved_chunk list" where
  "retrieved_chunks fl r q top_k_arg filter_metadata boost =
     (let k = (case top_k_arg of Some k' \<Rightarrow> k' | None \<Rightarrow> top_k r);
          results = collection_query r q (n_results k boost) filter_metadata;
          found = map (chunk_data fl (has_distances results)) (enumerate 0 (hits results));
          ranked = (if boost \<and> found \<noteq> [] then apply_priority_boost fl found else found)
      in take k ranked)"

definition retrieve ::
  "float_arith \<Rightarrow> DocumentRetriever \<Rightarrow> clock \<Rightarrow> retrieval_log_entry log_dir \<Rightarrow> string \<Rightarrow>
   nat option \<Rightarrow> meta_dict option \<Rightarrow> bool \<Rightarrow>
   py_error + (retrieved_chunk list \<times> retrieval_log_entry log_dir)" where
  "retrieve fl r clk fs q top_k_arg filter_metadata boost =
     (let chunks = retrieved_chunks fl r q top_k_arg filter_metadata boost in
      case log_retrieval clk fs q chunks filter_metadata of
        Inl e \<Rightarrow> Inl e
      | Inr fs' \<Rightarrow> Inr (chunks, fs'))"

section \<open>Solution parser (generator.py)\<close>

text \<open>
  \<open>re.findall(r'\[doc:[^\]]+\]', text)\<close>: scanning from the left, a match is \<open>[doc:\<close>, then
  the longest non-empty run of characters other than \<open>]\<close>, then \<open>]\<close>; the scan continues
  after a match, and one character further on where there is none.
\<close>

function extract_citations :: "string \<Rightarrow> string list" where
  "extract_citations [] = []"
| "extract_citations (c # cs) =
     (if prefix ''[doc:'' (c # cs) then
        (let rest = drop 5 (c # cs);
             body = takeWhile (\<lambda>x. x \<noteq> CHR '']'') rest;
             after = dropWhile (\<lambda>x. x \<noteq> CHR '']'') rest
         in if body \<noteq> [] \<and> after \<noteq> []
            then (''[doc:'' @ body @ '']'') # extract_citations (tl after)
            else extract_citations cs)
      else extract_citations cs)"
  by pat_completeness auto
termination
proof (relation "measure length", goal_cases)
  case 1
  show ?case by simp
next
  case (2 c cs rest body after)
  have "length (dropWhile (\<lambda>x. x \<noteq> CHR '']'') rest) \<le> length rest"
    by (rule length_dropWhile_le)
  then have "length after \<le> length rest"
    by (simp only: 2(4))
  moreover have "length rest \<le> length (c # cs)"
    by (simp only: 2(2) length_drop diff_le_self)
  moreover have "length (tl after) < length after"
    using 2(5) by (cases after) simp_all
  ultimately show ?case by simp
next
  case 3
  then show ?case by simp
next
  case 4
  then show ?case by simp
qed

text \<open>The test \<open>line[0].isdigit() and ('. ' in line or ') ' in line)\<close> on a non-empty line.\<close>

definition is_numbered_step :: "string \<Rightarrow> bool" where
  "is_numbered_step line =
     (case line of [] \<Rightarrow> False
      | c # rest \<Rightarrow> isdigit c \<and> (contains ''. '' line \<or> contains '') '' line))"

definition newline :: string where
  "newline = [CHR 0x0A]"

definition make_step :: "nat \<Rightarrow> string list \<Rightarrow> SolutionStep" where
  "make_step n current_step =
     \<lparr>step_num = n, step_text = join newline current_step,
      citations = extract_citations (join newline current_step),
      unsupported = contains ''(UNSUPPORTED)'' (join newline current_step)\<rparr>"

fun parse_lines ::
  "string list \<Rightarrow> SolutionStep list \<Rightarrow> string list \<Rightarrow> nat \<Rightarrow> SolutionStep list" where
  "parse_lines [] steps current_step n =
     (if current_step \<noteq> [] then steps @ [make_step n current_step] else steps)"
| "parse_lines (l # ls) steps current_step n =
     (let line = strip l in
      if line = [] then
        (if current_step \<noteq> []
         then parse_lines ls (steps @ [make_step n current_step]) [] n
         else parse_lines ls steps current_step n)
      else if is_numbered_step line then
        parse_lines ls
          (if current_step \<noteq> [] then steps @ [make_step n current_step] else steps)
          [line] (n + 1)
      else parse_lines ls steps (current_step @ [line]) n)"

definition parse_solution_steps :: "string \<Rightarrow> SolutionStep list" where
  "parse_solution_steps solution_text = parse_lines (split_lines solution_text) [] [] 0"


section \<open>Auxiliary definitions and sample inputs\<close>

text \<open>A step that \<open>validate_solution\<close> does not skip.\<close>

definition nonblank :: "SolutionStep \<Rightarrow> bool" where
  "nonblank s = (strip (step_text s) \<noteq> [])"

text \<open>
  A sample validator with the default thresholds: every pair of texts has similarity
  0.8, a text is its own single math expression, and expressions are equivalent when equal.
\<close>

definition sample_validator :: StepValidator where
  "sample_validator =
     \<lparr>sim_threshold = default_sim_threshold, min_ngram_overlap = default_min_ngram_overlap,
      cosine_sim = (\<lambda>a b. 8 / 10),
      extract_math_expressions = (\<lambda>t. [t]), are_symbolically_equivalent = (=)\<rparr>"

definition sample_clock :: clock where
  "sample_clock = \<lparr>now_iso = ''2024-01-01T00:00:00'', today = ''20240101''\<rparr>"

definition sample_chunk :: "string \<Rightarrow> retrieved_chunk" where
  "sample_chunk t =
     \<lparr>rc_chunk_id = ''notes.txt_p1_c0'', rc_chunk_text = t, rc_metadata = [],
      distance = 0, similarity = 1, rank = 0, boosted_similarity = None, priority_boost = None\<rparr>"

definition sample_step :: "nat \<Rightarrow> string \<Rightarrow> SolutionStep" where
  "sample_step n t = \<lparr>step_num = n, step_text = t, citations = [], unsupported = False\<rparr>"

definition empty_log :: "bool \<Rightarrow> 'e log_dir" where
  "empty_log w = \<lparr>writable = w, files = Map.empty\<rparr>"

text \<open>A sample tokenizer: one token per character, the token being the character's code.\<close>

definition char_tokenizer :: tokenizer where
  "char_tokenizer = \<lparr>encode = map of_char, decode = map char_of\<rparr>"

text \<open>
  A sample arithmetic: the exact operations on the reals. It agrees with double
  arithmetic wherever the exact result is itself a double, which is the case for every
  operation the sample retrievers below perform (subtracting a multiple of \<open>1/32\<close> from
  \<open>1.0\<close>, multiplying by \<open>1.0\<close>, and halving the double \<open>1.1\<close>).
\<close>

definition exact_arith :: float_arith where
  "exact_arith = \<lparr>fmul = (*), fsub = (-)\<rparr>"

text \<open>
  A sample collection of two hits in ascending distance: an untrusted one at distance
  0.46875 and a trusted one at distance 0.5; a query returns the first \<open>n\<close> of them.
\<close>

definition sample_hits :: "hit list" where
  "sample_hits =
     [\<lparr>hit_id = ''a.txt_p1_c0'', hit_document = ''alpha'',
       hit_metadata = [(''priority'', MStr ''normal''), (''trusted'', MBool False)],
       hit_distance = 15 / 32\<rparr>,
      \<lparr>hit_id = ''b.txt_p1_c0'', hit_document = ''beta'',
       hit_metadata = [(''priority'', MStr ''normal''), (''trusted'', MBool True)],
       hit_distance = 1 / 2\<rparr>]"

definition sample_retriever :: DocumentRetriever where
  "sample_retriever =
     \<lparr>collection_query = (\<lambda>q n flt. \<lparr>hits = take n sample_hits, has_distances = True\<rparr>),
      top_k = 10\<rparr>"


text \<open>
  The token span that \<open>_chunk_text\<close> slices in pass \<open>i\<close> of its loop, where
  \<open>start = i * (chunk_size - chunk_overlap)\<close>.
\<close>

definition window :: "DocumentIngestor \<Rightarrow> nat list \<Rightarrow> nat \<Rightarrow> nat list" where
  "window ing tokens i =
     (let start = int i * (chunk_size ing - chunk_overlap ing);
          end = min (start + chunk_size ing) (int (length tokens))
      in py_slice tokens start end)"

text \<open>A sample ingestor over the character tokenizer, and a disk holding one file.\<close>

definition sample_ingestor :: "int \<Rightarrow> int \<Rightarrow> DocumentIngestor" where
  "sample_ingestor sz ov = \<lparr>chunk_size = sz, chunk_overlap = ov, tokenizer = char_tokenizer\<rparr>"

definition sample_disk :: "string \<Rightarrow> string \<Rightarrow> string \<Rightarrow> string option" where
  "sample_disk path content = (\<lambda>p. if p = path then Some content else None)"

text \<open>
  A second sample validator with the default thresholds, whose similarity depends on the
  chunk: identical texts score 1, the three sample chunks score 0.3, 0.8 and 0.5, and
  the fourth 0.9.
\<close>

definition graded_chunk_texts :: "string list" where
  "graded_chunk_texts =
     [''Quadratic equations have two roots'',
      ''First subtract five from both sides of the equation to isolate x'',
      ''Then divide by two'']"

definition graded_chunks :: "retrieved_chunk list" where
  "graded_chunks =
     map (\<lambda>(i, t). \<lparr>rc_chunk_id = ''notes.txt_p1_c'' @ str_nat i, rc_chunk_text = t,
                      rc_metadata = [], distance = 0, similarity = 1, rank = i,
                      boosted_similarity = None, priority_boost = None\<rparr>)
       (enumerate 0 graded_chunk_texts)"

definition graded_validator :: StepValidator where
  "graded_validator =
     \<lparr>sim_threshold = default_sim_threshold, min_ngram_overlap = default_min_ngram_overlap,
      cosine_sim = (\<lambda>a b. if a = b then 1
                         else if b = graded_chunk_texts ! 0 then 3 / 10
                         else if b = graded_chunk_texts ! 1 then 8 / 10
                         else if b = graded_chunk_texts ! 2 then 5 / 10
                         else 9 / 10),
      extract_math_expressions = (\<lambda>t. []), are_symbolically_equivalent = (\<lambda>a b. False)\<rparr>"




text \<open>
  A solution of five lines: a numbered line with a citation, a continuation line with
  surrounding blanks, a blank line, an unnumbered line with the marker, and a line
  numbered with a parenthesis.
\<close>

definition sample_solution :: string where
  "sample_solution =
     ''1. By [doc:a | p:1]'' @ [CHR 0x0A] @ '' x = 2 '' @ [CHR 0x0A] @ [CHR 0x0A] @
     ''so (UNSUPPORTED)'' @ [CHR 0x0A] @ ''2) end''"

section \<open>Properties of the validator\<close>

subsection \<open>The first maximum\<close>

lemma argmax_from_spec:
  "bi < length pre \<Longrightarrow> i = length pre \<Longrightarrow> pre ! bi = bv \<Longrightarrow> \<forall>x\<in>set pre. x \<le> bv \<Longrightarrow>
   argmax_from xs i bi bv < length (pre @ xs) \<and>
   (\<forall>x\<in>set (pre @ xs). x \<le> (pre @ xs) ! argmax_from xs i bi bv)"
proof (induction xs arbitrary: pre i bi bv)
  case Nil
  then show ?case by simp
next
  case (Cons x xs)
  show ?case
  proof (cases "bv < x")
    case True
    have "argmax_from xs (Suc i) i x < length ((pre @ [x]) @ xs) \<and>
      (\<forall>y\<in>set ((pre @ [x]) @ xs). y \<le> ((pre @ [x]) @ xs) ! argmax_from xs (Suc i) i x)"
    proof (rule Cons.IH)
      show "i < length (pre @ [x])" using Cons.prems by simp
      show "Suc i = length (pre @ [x])" using Cons.prems by simp
      show "(pre @ [x]) ! i = x" using Cons.prems by simp
      show "\<forall>y\<in>set (pre @ [x]). y \<le> x" using Cons.prems True by fastforce
    qed
    with True show ?thesis by simp
  next
    case False
    have "argmax_from xs (Suc i) bi bv < length ((pre @ [x]) @ xs) \<and>
      (\<forall>y\<in>set ((pre @ [x]) @ xs). y \<le> ((pre @ [x]) @ xs) ! argmax_from xs (Suc i) bi bv)"
    proof (rule Cons.IH)
      show "bi < length (pre @ [x])" using Cons.prems by simp
      show "Suc i = length (pre @ [x])" using Cons.prems by simp
      show "(pre @ [x]) ! bi = bv" using Cons.prems by (simp add: nth_append)
      show "\<forall>y\<in>set (pre @ [x]). y \<le> bv" using Cons.prems False by auto
    qed
    with False show ?thesis by simp
  qed
qed

lemma argmax_less: "xs \<noteq> [] \<Longrightarrow> argmax xs < length xs"
  using argmax_from_spec [of 0 "[hd xs]" 1 "hd xs" "tl xs"]
  by (cases xs) (simp_all add: argmax_def)

lemma argmax_upper: "xs \<noteq> [] \<Longrightarrow> x \<in> set xs \<Longrightarrow> x \<le> xs ! argmax xs"
  using argmax_from_spec [of 0 "[hd xs]" 1 "hd xs" "tl xs"]
  by (cases xs) (auto simp: argmax_def)

lemma argmax_Max: "xs \<noteq> [] \<Longrightarrow> xs ! argmax xs = Max (set xs)"
proof -
  assume ne: "xs \<noteq> []"
  have "Max (set xs) = xs ! argmax xs"
  proof (rule Max_eqI)
    show "finite (set xs)" by simp
    show "\<And>y. y \<in> set xs \<Longrightarrow> y \<le> xs ! argmax xs" using ne by (rule argmax_upper)
    show "xs ! argmax xs \<in> set xs" using ne argmax_less by simp
  qed
  then show ?thesis by simp
qed

subsection \<open>The validation loop\<close>

lemma validate_steps_eq:
  "validate_steps v ct rcs steps acc a =
     (acc @ map (\<lambda>s. validation_record s (validate_step v (step_text s) ct rcs)) (filter nonblank steps),
      a \<and> list_all (\<lambda>s. sr_supported (validate_step v (step_text s) ct rcs)) (filter nonblank steps))"
  by (induction steps arbitrary: acc a) (auto simp: nonblank_def Let_def)

lemma validation_result_fields:
  "step_validations (validation_result v steps chunks md) =
     map (\<lambda>s. validation_record s (validate_step v (step_text s) (map rc_chunk_text chunks) chunks))
       (filter nonblank steps)"
  "all_supported (validation_result v steps chunks md) =
     list_all (\<lambda>s. sr_supported (validate_step v (step_text s) (map rc_chunk_text chunks) chunks))
       (filter nonblank steps)"
  "total_steps (validation_result v steps chunks md) = length (filter nonblank steps)"
  "supported_steps (validation_result v steps chunks md) =
     length (filter (\<lambda>s. sr_supported (validate_step v (step_text s) (map rc_chunk_text chunks) chunks))
       (filter nonblank steps))"
  by (simp_all add: validation_result_def validate_steps_eq Let_def split_def
        validation_record_def filter_map comp_def)

lemma sr_supported_iff:
  "sr_supported (validate_step v step ct rcs) =
     (ts_supported (check_textual_support v step ct rcs) \<or> ss_supported (check_symbolic_support v step ct))"
  by (simp add: validate_step_def Let_def)

lemma validation_result_strict:
  "status (validation_result v steps chunks ''strict'') =
     (if all_supported (validation_result v steps chunks ''strict'') then PASSED else FAILED)"
  "\<not> all_supported (validation_result v steps chunks ''strict'') \<Longrightarrow>
     message (validation_result v steps chunks ''strict'') = ''No supported solution found in resources.''"
  by (simp_all add: validation_result_def Let_def split_def)

lemma validate_solution_writable:
  "writable fs \<Longrightarrow>
   \<exists>fs'. validate_solution v clk fs steps chunks md = Inr (validation_result v steps chunks md, fs')"
  by (simp add: validate_solution_def log_validation_def append_line_def Let_def)

subsection \<open>Word n-grams\<close>

lemma isspace_lower_char: "isspace (lower_char c) = isspace c"
proof -
  let ?n = "of_char c :: nat"
  show ?thesis
  proof (cases "(65 \<le> ?n \<and> ?n \<le> 90) \<or> (192 \<le> ?n \<and> ?n \<le> 222 \<and> ?n \<noteq> 215)")
    case True
    then have "(of_char (lower_char c) :: nat) = ?n + 32"
      by (auto simp: lower_char_def Let_def)
    with True show ?thesis by (auto simp: isspace_def Let_def)
  next
    case False
    then show ?thesis by (auto simp: lower_char_def Let_def)
  qed
qed

lemma split_ws_Nil:
  assumes "dropWhile isspace s = []"
  shows "split_ws s = []"
  by (subst split_ws.simps) (simp only: assms list.case)

lemma split_ws_Cons:
  assumes "dropWhile isspace s = c # t"
  shows "split_ws s = takeWhile (\<lambda>x. \<not> isspace x) (c # t)
                  # split_ws (dropWhile (\<lambda>x. \<not> isspace x) (c # t))"
  by (subst split_ws.simps) (simp only: assms list.case)

lemma dropWhile_isspace_lower: "dropWhile isspace (lower s) = lower (dropWhile isspace s)"
  by (simp add: lower_def dropWhile_map comp_def isspace_lower_char)

lemma dropWhile_nonspace_lower:
  "dropWhile (\<lambda>x. \<not> isspace x) (lower s) = lower (dropWhile (\<lambda>x. \<not> isspace x) s)"
  by (simp add: lower_def dropWhile_map comp_def isspace_lower_char)

lemma length_split_ws_lower: "length (split_ws (lower s)) = length (split_ws s)"
proof (induction s rule: split_ws.induct)
  case (1 s)
  show ?case
  proof (cases "dropWhile isspace s")
    case Nil
    have "dropWhile isspace (lower s) = lower (dropWhile isspace s)"
      by (rule dropWhile_isspace_lower)
    also have "\<dots> = []" unfolding Nil by (simp add: lower_def)
    finally have "split_ws (lower s) = []" by (rule split_ws_Nil)
    moreover have "split_ws s = []" using Nil by (rule split_ws_Nil)
    ultimately show ?thesis by simp
  next
    case (Cons c t)
    have "dropWhile isspace (lower s) = lower (dropWhile isspace s)"
      by (rule dropWhile_isspace_lower)
    also have "\<dots> = lower_char c # lower t" unfolding Cons by (simp add: lower_def)
    finally have low: "dropWhile isspace (lower s) = lower_char c # lower t" .
    have ih: "length (split_ws (lower (dropWhile (\<lambda>x. \<not> isspace x) (c # t))))
        = length (split_ws (dropWhile (\<lambda>x. \<not> isspace x) (c # t)))"
      using 1 Cons by simp
    have "length (split_ws (lower s))
        = Suc (length (split_ws (dropWhile (\<lambda>x. \<not> isspace x) (lower (c # t)))))"
      using split_ws_Cons [OF low] by (simp add: lower_def)
    also have "\<dots> = Suc (length (split_ws (dropWhile (\<lambda>x. \<not> isspace x) (c # t))))"
      using ih by (simp only: dropWhile_nonspace_lower)
    also have "\<dots> = length (split_ws s)"
      using split_ws_Cons [OF Cons] by simp
    finally show ?thesis .
  qed
qed

lemma card_ngrams_le: "card (ngrams n tokens) \<le> length tokens + 1 - n"
proof -
  have "card (ngrams n tokens) \<le> length [0 ..< length tokens + 1 - n]"
    unfolding ngrams_def by (metis card_length length_map)
  then show ?thesis by simp
qed

lemma compute_ngram_overlap_le:
  "compute_ngram_overlap text1 text2 n \<le> length (split_ws text1) + 1 - n"
proof -
  have "card (ngrams n (split_ws (lower text1)) \<inter> ngrams n (split_ws (lower text2)))
      \<le> card (ngrams n (split_ws (lower text1)))"
    by (rule card_mono) (simp_all add: ngrams_def)
  also have "\<dots> \<le> length (split_ws (lower text1)) + 1 - n"
    by (rule card_ngrams_le)
  finally show ?thesis
    by (simp add: compute_ngram_overlap_def Let_def length_split_ws_lower)
qed


lemma textual_unsupported_short:
  assumes "int (length (split_ws step) + 1 - 3) < min_ngram_overlap v"
  shows "\<not> ts_supported (check_textual_support v step chunk_texts chunks)"
proof (cases "chunk_texts = []")
  case True
  then show ?thesis by (simp add: check_textual_support_def)
next
  case False
  let ?best = "chunk_texts ! argmax (map (cosine_sim v step) chunk_texts)"
  have "int (compute_ngram_overlap step ?best 3) \<le> int (length (split_ws step) + 1 - 3)"
    using compute_ngram_overlap_le [of step ?best 3] by simp
  with assms have "\<not> min_ngram_overlap v \<le> int (compute_ngram_overlap step ?best 3)"
    by linarith
  with False show ?thesis by (simp add: check_textual_support_def Let_def)
qed

lemma sample_split:
  "split_ws ''x = 4'' = [''x'', ''='', ''4'']" "split_ws ''y = 5'' = [''y'', ''='', ''5'']"
  by (simp_all add: split_ws.simps isspace_def)

lemma sample_textual:
  "\<not> ts_supported (check_textual_support sample_validator ''x = 4'' cts cs)"
  "\<not> ts_supported (check_textual_support sample_validator ''y = 5'' cts cs)"
  by (rule textual_unsupported_short,
      simp add: sample_split sample_validator_def default_min_ngram_overlap_def)+

lemma sample_symbolic:
  "ss_supported (check_symbolic_support sample_validator ''x = 4'' [''x = 4''])"
  "\<not> ss_supported (check_symbolic_support sample_validator ''y = 5'' [''x = 4''])"
  by (simp_all add: check_symbolic_support_def sample_validator_def Let_def)

text \<open>
  Claim C1. In strict mode, when the log write succeeds, \<open>validate_solution\<close> returns
  FAILED with the message "No supported solution found in resources." if some step
  with non-blank text is supported neither textually nor symbolically, and PASSED if
  every such step is supported by one of the two checks; it never returns PARTIAL.
\<close>

theorem strict_mode_verdict:
  assumes "writable fs"
  shows "\<exists>r fs'. validate_solution v clk fs steps chunks ''strict'' = Inr (r, fs') \<and>
     ((\<exists>s\<in>set steps. strip (step_text s) \<noteq> [] \<and>
          \<not> ts_supported (check_textual_support v (step_text s) (map rc_chunk_text chunks) chunks) \<and>
          \<not> ss_supported (check_symbolic_support v (step_text s) (map rc_chunk_text chunks)))
        \<longrightarrow> status r = FAILED \<and> message r = ''No supported solution found in resources.'') \<and>
     ((\<forall>s\<in>set steps. strip (step_text s) \<noteq> [] \<longrightarrow>
          ts_supported (check_textual_support v (step_text s) (map rc_chunk_text chunks) chunks) \<or>
          ss_supported (check_symbolic_support v (step_text s) (map rc_chunk_text chunks)))
        \<longrightarrow> status r = PASSED) \<and>
     status r \<noteq> PARTIAL"
proof -
  let ?r = "validation_result v steps chunks ''strict''"
  obtain fs' where ret: "validate_solution v clk fs steps chunks ''strict'' = Inr (?r, fs')"
    using validate_solution_writable [OF assms] by blast
  have all: "all_supported ?r = (\<forall>s\<in>set steps. strip (step_text s) \<noteq> [] \<longrightarrow>
          ts_supported (check_textual_support v (step_text s) (map rc_chunk_text chunks) chunks) \<or>
          ss_supported (check_symbolic_support v (step_text s) (map rc_chunk_text chunks)))"
    by (auto simp: validation_result_fields(2) list_all_iff nonblank_def sr_supported_iff)
  have failed: "\<not> all_supported ?r \<Longrightarrow>
      status ?r = FAILED \<and> message ?r = ''No supported solution found in resources.''"
    using validation_result_strict [of v steps chunks] by simp
  have passed: "all_supported ?r \<Longrightarrow> status ?r = PASSED"
    using validation_result_strict(1) [of v steps chunks] by simp
  have nopartial: "status ?r \<noteq> PARTIAL"
    using validation_result_strict(1) [of v steps chunks] by simp
  from all failed passed nopartial have
    "((\<exists>s\<in>set steps. strip (step_text s) \<noteq> [] \<and>
          \<not> ts_supported (check_textual_support v (step_text s) (map rc_chunk_text chunks) chunks) \<and>
          \<not> ss_supported (check_symbolic_support v (step_text s) (map rc_chunk_text chunks)))
        \<longrightarrow> status ?r = FAILED \<and> message ?r = ''No supported solution found in resources.'') \<and>
     ((\<forall>s\<in>set steps. strip (step_text s) \<noteq> [] \<longrightarrow>
          ts_supported (check_textual_support v (step_text s) (map rc_chunk_text chunks) chunks) \<or>
          ss_supported (check_symbolic_support v (step_text s) (map rc_chunk_text chunks)))
        \<longrightarrow> status ?r = PASSED) \<and>
     status ?r \<noteq> PARTIAL"
    by blast
  with ret show ?thesis by blast
qed

theorem strict_mode_verdict_witness:
  "writable (empty_log True :: validation_log_entry log_dir) \<and>
   (\<exists>r fs'. validate_solution sample_validator sample_clock (empty_log True)
        [sample_step 1 ''x = 4'', sample_step 2 ''y = 5''] [sample_chunk ''x = 4''] ''strict''
        = Inr (r, fs') \<and>
      status r = FAILED \<and> message r = ''No supported solution found in resources.'') \<and>
   (\<exists>r fs'. validate_solution sample_validator sample_clock (empty_log True)
        [sample_step 1 ''x = 4'', sample_step 1 ''  ''] [sample_chunk ''x = 4''] ''strict''
        = Inr (r, fs') \<and>
      status r = PASSED)"
proof -
  have w: "writable (empty_log True :: validation_log_entry log_dir)"
    by (simp add: empty_log_def)
  have a: "\<exists>r fs'. validate_solution sample_validator sample_clock (empty_log True)
        [sample_step 1 ''x = 4'', sample_step 2 ''y = 5''] [sample_chunk ''x = 4''] ''strict''
        = Inr (r, fs') \<and>
      status r = FAILED \<and> message r = ''No supported solution found in resources.''"
    using strict_mode_verdict [OF w, of sample_validator sample_clock
        "[sample_step 1 ''x = 4'', sample_step 2 ''y = 5'']" "[sample_chunk ''x = 4'']"]
      sample_textual(2) sample_symbolic(2)
    by (simp add: sample_step_def sample_chunk_def strip_def isspace_def) blast
  have b: "\<exists>r fs'. validate_solution sample_validator sample_clock (empty_log True)
        [sample_step 1 ''x = 4'', sample_step 1 ''  ''] [sample_chunk ''x = 4''] ''strict''
        = Inr (r, fs') \<and> status r = PASSED"
    using strict_mode_verdict [OF w, of sample_validator sample_clock
        "[sample_step 1 ''x = 4'', sample_step 1 ''  '']" "[sample_chunk ''x = 4'']"]
      sample_symbolic(1)
    by (simp add: sample_step_def sample_chunk_def strip_def isspace_def) blast
  from w a b show ?thesis by blast
qed

lemma validation_result_prefer:
  "md \<noteq> ''strict'' \<Longrightarrow> status (validation_result v steps chunks md) =
     (if supported_steps (validation_result v steps chunks md)
           < total_steps (validation_result v steps chunks md) then PARTIAL else PASSED)"
  "md \<noteq> ''strict'' \<Longrightarrow> message (validation_result v steps chunks md) =
     str_nat (supported_steps (validation_result v steps chunks md)) @ ''/'' @
     str_nat (total_steps (validation_result v steps chunks md)) @ '' steps supported by resources.''"
  by (simp_all add: validation_result_def Let_def split_def)

lemma supported_le_total:
  "supported_steps (validation_result v steps chunks md) \<le> total_steps (validation_result v steps chunks md)"
  by (simp only: validation_result_fields length_filter_le)

lemma step_texts_validated:
  "map sv_step_text (step_validations (validation_result v steps chunks md)) =
     filter (\<lambda>t. strip t \<noteq> []) (map step_text steps)"
  by (simp add: validation_result_fields validation_record_def filter_map comp_def
        nonblank_def [abs_def])

lemma supported_steps_count:
  "supported_steps (validation_result v steps chunks md) =
     length (filter supported (step_validations (validation_result v steps chunks md)))"
  by (simp add: validation_result_def Let_def split_def)

text \<open>
  Claim C2. In prefer mode, when the log write succeeds, \<open>validate_solution\<close> returns
  PASSED exactly when \<open>supported_steps = total_steps\<close> and PARTIAL otherwise, with a
  message giving the ratio supported/total; it never returns FAILED. Steps whose text is
  empty or whitespace-only are skipped and are not counted in \<open>total_steps\<close>.
\<close>

theorem prefer_mode_verdict:
  assumes "writable fs"
  shows "\<exists>r fs'. validate_solution v clk fs steps chunks ''prefer'' = Inr (r, fs') \<and>
     (status r = PASSED \<longleftrightarrow> supported_steps r = total_steps r) \<and>
     (status r = PARTIAL \<longleftrightarrow> supported_steps r \<noteq> total_steps r) \<and>
     message r = str_nat (supported_steps r) @ ''/'' @ str_nat (total_steps r)
                   @ '' steps supported by resources.'' \<and>
     status r \<noteq> FAILED \<and>
     total_steps r = length (filter (\<lambda>s. strip (step_text s) \<noteq> []) steps) \<and>
     map sv_step_text (step_validations r) = filter (\<lambda>t. strip t \<noteq> []) (map step_text steps) \<and>
     supported_steps r = length (filter supported (step_validations r))"
proof -
  let ?r = "validation_result v steps chunks ''prefer''"
  obtain fs' where ret: "validate_solution v clk fs steps chunks ''prefer'' = Inr (?r, fs')"
    using validate_solution_writable [OF assms] by blast
  have ns: "''prefer'' \<noteq> ''strict''" by simp
  have st: "status ?r = (if supported_steps ?r < total_steps ?r then PARTIAL else PASSED)"
    by (rule validation_result_prefer(1) [OF ns])
  have le: "supported_steps ?r \<le> total_steps ?r" by (rule supported_le_total)
  have p1: "status ?r = PASSED \<longleftrightarrow> supported_steps ?r = total_steps ?r"
    using st le by auto
  have p2: "status ?r = PARTIAL \<longleftrightarrow> supported_steps ?r \<noteq> total_steps ?r"
    using st le by auto
  have p3: "status ?r \<noteq> FAILED" using st by simp
  have p4: "message ?r = str_nat (supported_steps ?r) @ ''/'' @ str_nat (total_steps ?r)
                   @ '' steps supported by resources.''"
    by (rule validation_result_prefer(2) [OF ns])
  have p5: "total_steps ?r = length (filter (\<lambda>s. strip (step_text s) \<noteq> []) steps)"
    by (simp add: validation_result_fields(3) nonblank_def [abs_def])
  have p6: "map sv_step_text (step_validations ?r) = filter (\<lambda>t. strip t \<noteq> []) (map step_text steps)"
    by (rule step_texts_validated)
  have p7: "supported_steps ?r = length (filter supported (step_validations ?r))"
    by (rule supported_steps_count)
  from ret p1 p2 p3 p4 p5 p6 p7 show ?thesis by blast
qed

theorem prefer_mode_verdict_witness:
  "writable (empty_log True :: validation_log_entry log_dir) \<and>
   (\<exists>r fs'. validate_solution sample_validator sample_clock (empty_log True)
        [sample_step 1 ''x = 4'', sample_step 2 ''x = 4'', sample_step 2 ''  '', sample_step 3 ''y = 5'']
        [sample_chunk ''x = 4''] ''prefer'' = Inr (r, fs') \<and>
      status r = PARTIAL \<and> supported_steps r = 2 \<and> total_steps r = 3 \<and>
      message r = ''2/3 steps supported by resources.'')"
proof -
  have w: "writable (empty_log True :: validation_log_entry log_dir)"
    by (simp add: empty_log_def)
  let ?steps = "[sample_step 1 ''x = 4'', sample_step 2 ''x = 4'', sample_step 2 ''  '', sample_step 3 ''y = 5'']"
  obtain r fs' where
    ret: "validate_solution sample_validator sample_clock (empty_log True) ?steps
            [sample_chunk ''x = 4''] ''prefer'' = Inr (r, fs')"
    and part: "status r = PARTIAL \<longleftrightarrow> supported_steps r \<noteq> total_steps r"
    and msg: "message r = str_nat (supported_steps r) @ ''/'' @ str_nat (total_steps r)
                   @ '' steps supported by resources.''"
    and tot: "total_steps r = length (filter (\<lambda>s. strip (step_text s) \<noteq> []) ?steps)"
    using prefer_mode_verdict [OF w, of sample_validator sample_clock ?steps "[sample_chunk ''x = 4'']"]
    by blast
  have r: "r = validation_result sample_validator ?steps [sample_chunk ''x = 4''] ''prefer''"
    using ret validate_solution_writable [OF w, of sample_validator sample_clock ?steps "[sample_chunk ''x = 4'']" "''prefer''"]
    by auto
  have t3: "total_steps r = 3"
    using tot by (simp add: sample_step_def strip_def isspace_def)
  have s2: "supported_steps r = 2"
    unfolding r
    by (simp add: validation_result_fields(4) nonblank_def [abs_def] sample_step_def strip_def
        isspace_def sr_supported_iff sample_textual sample_symbolic sample_chunk_def)
  have "message r = ''2/3 steps supported by resources.''"
    using msg t3 s2 by (simp add: str_nat.simps digit_char_def)
  moreover have "status r = PARTIAL" using part t3 s2 by simp
  ultimately show ?thesis using w ret t3 s2 by blast
qed

lemma check_textual_support_nonempty:
  assumes "chunk_texts \<noteq> []"
  shows "ts_similarity (check_textual_support v step chunk_texts chunks)
           = map (cosine_sim v step) chunk_texts ! argmax (map (cosine_sim v step) chunk_texts)"
    and "ts_supported (check_textual_support v step chunk_texts chunks) \<longleftrightarrow>
           sim_threshold v \<le> ts_similarity (check_textual_support v step chunk_texts chunks) \<and>
           min_ngram_overlap v \<le> int (compute_ngram_overlap step
               (chunk_texts ! argmax (map (cosine_sim v step) chunk_texts)) 3)"
    and "ts_confidence (check_textual_support v step chunk_texts chunks) =
           (if 85 / 100 \<le> ts_similarity (check_textual_support v step chunk_texts chunks) then HIGH
            else if sim_threshold v \<le> ts_similarity (check_textual_support v step chunk_texts chunks)
            then MEDIUM else LOW)"
  using assms by (simp_all add: check_textual_support_def Let_def)

text \<open>
  Claim C10. With the default \<open>min_ngram_overlap = 6\<close> a step of fewer than 8
  whitespace-separated tokens has at most 5 distinct 3-grams, its overlap with any chunk
  is at most 5, the textual check never supports it whatever the similarities are, and
  when the step is supported at all it is through the symbolic check.
\<close>

theorem short_step_never_textual:
  assumes "min_ngram_overlap v = default_min_ngram_overlap"
    and "length (split_ws step) < 8"
  shows "card (ngrams 3 (split_ws (lower step))) \<le> 5 \<and>
         compute_ngram_overlap step chunk 3 \<le> 5 \<and>
         \<not> ts_supported (check_textual_support v step chunk_texts chunks) \<and>
         (sr_supported (validate_step v step chunk_texts chunks) \<longrightarrow>
            sr_support_type (validate_step v step chunk_texts chunks) = Symbolic \<and>
            ss_supported (check_symbolic_support v step chunk_texts))"
proof -
  have "card (ngrams 3 (split_ws (lower step))) \<le> length (split_ws (lower step)) + 1 - 3"
    by (rule card_ngrams_le)
  with assms(2) have a: "card (ngrams 3 (split_ws (lower step))) \<le> 5"
    by (simp add: length_split_ws_lower)
  have "compute_ngram_overlap step chunk 3 \<le> length (split_ws step) + 1 - 3"
    by (rule compute_ngram_overlap_le)
  with assms(2) have b: "compute_ngram_overlap step chunk 3 \<le> 5" by simp
  have "int (length (split_ws step) + 1 - 3) < min_ngram_overlap v"
    using assms by (simp add: default_min_ngram_overlap_def)
  then have c: "\<not> ts_supported (check_textual_support v step chunk_texts chunks)"
    by (rule textual_unsupported_short)
  then have d: "sr_supported (validate_step v step chunk_texts chunks) \<longrightarrow>
            sr_support_type (validate_step v step chunk_texts chunks) = Symbolic \<and>
            ss_supported (check_symbolic_support v step chunk_texts)"
    by (simp add: validate_step_def Let_def)
  from a b c d show ?thesis by blast
qed

theorem short_step_never_textual_witness:
  "min_ngram_overlap sample_validator = default_min_ngram_overlap \<and>
   length (split_ws ''x = 4'') < 8 \<and>
   \<not> ts_supported (check_textual_support sample_validator ''x = 4'' [''x = 4''] [sample_chunk ''x = 4'']) \<and>
   sr_supported (validate_step sample_validator ''x = 4'' [''x = 4''] [sample_chunk ''x = 4'']) \<and>
   sr_support_type (validate_step sample_validator ''x = 4'' [''x = 4''] [sample_chunk ''x = 4'']) = Symbolic"
proof -
  have h1: "min_ngram_overlap sample_validator = default_min_ngram_overlap"
    by (simp add: sample_validator_def)
  have h2: "length (split_ws ''x = 4'') < 8" by (simp add: sample_split)
  have s: "sr_supported (validate_step sample_validator ''x = 4'' [''x = 4''] [sample_chunk ''x = 4''])"
    by (simp add: sr_supported_iff sample_symbolic)
  show ?thesis
    using short_step_never_textual [OF h1 h2, of "''x = 4''" "[''x = 4'']" "[sample_chunk ''x = 4'']"] h1 h2 s
    by blast
qed

section \<open>Properties of the chunker\<close>

subsection \<open>The loop\<close>

lemma chunk_loop_Some_advances:
  assumes "chunk_loop ing tokens mk start idx chunks = Some y"
  shows "\<not> (chunk_size ing - chunk_overlap ing \<le> 0 \<and> start < int (length tokens))"
proof (rule chunk_loop.raw_induct
    [where P = "\<lambda>ing tokens mk start idx chunks y.
        \<not> (chunk_size ing - chunk_overlap ing \<le> 0 \<and> start < int (length tokens))",
     OF _ assms])
  fix f :: "DocumentIngestor \<Rightarrow> nat list \<Rightarrow> (int \<Rightarrow> nat \<Rightarrow> DocumentChunk) \<Rightarrow>
      int \<Rightarrow> nat \<Rightarrow> DocumentChunk list \<Rightarrow> DocumentChunk list option"
  fix ing tokens mk start idx chunks y
  assume IH: "\<And>ing tokens mk start idx chunks y.
      f ing tokens mk start idx chunks = Some y \<Longrightarrow>
      \<not> (chunk_size ing - chunk_overlap ing \<le> 0 \<and> start < int (length tokens))"
  assume body: "(if start < int (length tokens) then
        f ing tokens mk (start + (chunk_size ing - chunk_overlap ing)) (idx + 1)
          (chunks @ [mk start idx])
      else Some chunks) = Some y"
  show "\<not> (chunk_size ing - chunk_overlap ing \<le> 0 \<and> start < int (length tokens))"
  proof
    assume a: "chunk_size ing - chunk_overlap ing \<le> 0 \<and> start < int (length tokens)"
    with body have "f ing tokens mk (start + (chunk_size ing - chunk_overlap ing)) (idx + 1)
        (chunks @ [mk start idx]) = Some y"
      by simp
    then have "\<not> (chunk_size ing - chunk_overlap ing \<le> 0 \<and>
        start + (chunk_size ing - chunk_overlap ing) < int (length tokens))"
      by (rule IH)
    with a show False by simp
  qed
qed

lemma chunk_loop_diverges:
  assumes "chunk_size ing - chunk_overlap ing \<le> 0" and "start < int (length tokens)"
  shows "chunk_loop ing tokens mk start idx chunks = None"
proof (cases "chunk_loop ing tokens mk start idx chunks")
  case None
  then show ?thesis .
next
  case (Some y)
  then show ?thesis using chunk_loop_Some_advances [OF Some] assms by simp
qed


lemma window_count_step:
  assumes "0 < (st::int)" and "start < len"
  shows "nat ((len - start + st - 1) div st) = Suc (nat ((len - (start + st) + st - 1) div st))"
proof -
  have "(len - start + st - 1) div st = (len - (start + st) + st - 1 + st) div st"
    by (simp add: algebra_simps)
  also have "\<dots> = (len - (start + st) + st - 1) div st + 1"
    using assms(1) by (simp add: div_add_self2)
  finally have eq: "(len - start + st - 1) div st = (len - (start + st) + st - 1) div st + 1" .
  have "0 \<le> (len - (start + st) + st - 1) div st"
    using assms by (simp add: pos_imp_zdiv_nonneg_iff)
  with eq show ?thesis by simp
qed

lemma window_count_done:
  assumes "0 < (st::int)" and "\<not> start < len"
  shows "nat ((len - start + st - 1) div st) = 0"
proof -
  have "len - start + st - 1 \<le> st - 1" using assms by simp
  then have "(len - start + st - 1) div st \<le> (st - 1) div st"
    using assms(1) by (rule zdiv_mono1)
  also have "(st - 1) div st = 0"
    using assms(1) by simp
  finally show ?thesis by simp
qed

lemma chunk_loop_closed:
  assumes "0 < chunk_size ing - chunk_overlap ing"
  shows "chunk_loop ing tokens mk start idx chunks =
     Some (chunks @ map (\<lambda>i. mk (start + int i * (chunk_size ing - chunk_overlap ing)) (idx + i))
        [0 ..< nat ((int (length tokens) - start + (chunk_size ing - chunk_overlap ing) - 1)
                     div (chunk_size ing - chunk_overlap ing))])"
proof (induction "nat (int (length tokens) - start)" arbitrary: start idx chunks rule: less_induct)
  case less
  let ?st = "chunk_size ing - chunk_overlap ing"
  let ?len = "int (length tokens)"
  show ?case
  proof (cases "start < ?len")
    case False
    then have "chunk_loop ing tokens mk start idx chunks = Some chunks"
      by (subst chunk_loop.simps) simp
    moreover have "nat ((?len - start + ?st - 1) div ?st) = 0"
      using assms False by (rule window_count_done)
    ultimately show ?thesis by simp
  next
    case True
    let ?k = "nat ((?len - (start + ?st) + ?st - 1) div ?st)"
    have cnt: "nat ((?len - start + ?st - 1) div ?st) = Suc ?k"
      using assms True by (rule window_count_step)
    have "nat (?len - (start + ?st)) < nat (?len - start)"
      using assms True by simp
    then have ih: "chunk_loop ing tokens mk (start + ?st) (idx + 1) (chunks @ [mk start idx]) =
       Some ((chunks @ [mk start idx]) @
          map (\<lambda>i. mk (start + ?st + int i * ?st) (idx + 1 + i)) [0 ..< ?k])"
      by (rule less)
    have "chunk_loop ing tokens mk start idx chunks
        = chunk_loop ing tokens mk (start + ?st) (idx + 1) (chunks @ [mk start idx])"
      using True by (subst chunk_loop.simps) simp
    also note ih
    also have "(chunks @ [mk start idx]) @
          map (\<lambda>i. mk (start + ?st + int i * ?st) (idx + 1 + i)) [0 ..< ?k]
        = chunks @ map (\<lambda>i. mk (start + int i * ?st) (idx + i)) [0 ..< Suc ?k]"
    proof -
      have "map (\<lambda>i. mk (start + int i * ?st) (idx + i)) [0 ..< Suc ?k]
          = mk (start + int 0 * ?st) (idx + 0)
            # map (\<lambda>i. mk (start + int (Suc i) * ?st) (idx + Suc i)) [0 ..< ?k]"
        by (rule map_upt_Suc)
      also have "\<dots> = mk start idx
            # map (\<lambda>i. mk (start + ?st + int i * ?st) (idx + 1 + i)) [0 ..< ?k]"
        by (simp add: distrib_right add.assoc)
      finally show ?thesis by simp
    qed
    finally show ?thesis by (simp only: cnt)
  qed
qed


subsection \<open>Windows over a list\<close>

lemma tiling_prefix:
  assumes "T \<le> S" and "1 \<le> j"
  shows "concat (map (\<lambda>i. if i = 0 then take S (drop (i * T) xs)
                          else drop (S - T) (take S (drop (i * T) xs))) [0 ..< j])
         = take ((j - 1) * T + S) xs"
  using assms(2)
proof (induction j rule: dec_induct)
  case base
  show ?case by simp
next
  case (step j)
  have j: "j \<noteq> 0" using step by simp
  have idx: "S - T + j * T = (j - 1) * T + S"
    using assms(1) j by (cases j) simp_all
  have "drop (S - T) (take S (drop (j * T) xs)) = take (S - (S - T)) (drop (S - T) (drop (j * T) xs))"
    by (simp only: drop_take)
  also have "\<dots> = take T (drop ((j - 1) * T + S) xs)"
    using assms(1) idx by simp
  finally have last: "drop (S - T) (take S (drop (j * T) xs)) = take T (drop ((j - 1) * T + S) xs)" .
  have "concat (map (\<lambda>i. if i = 0 then take S (drop (i * T) xs)
                          else drop (S - T) (take S (drop (i * T) xs))) [0 ..< Suc j])
      = take ((j - 1) * T + S) xs @ take T (drop ((j - 1) * T + S) xs)"
    using step.IH j last by simp
  also have "\<dots> = take ((j - 1) * T + S + T) xs"
    by (simp only: take_add)
  also have "(j - 1) * T + S + T = (Suc j - 1) * T + S"
    using j by (cases j) simp_all
  finally show ?case .
qed

lemma window_overlap:
  assumes "T \<le> S"
  shows "drop T (take S (drop (i * T) xs))
       = take (min (S - T) (length (take S (drop (Suc i * T) xs)))) (take S (drop (Suc i * T) xs))"
proof -
  have "drop T (take S (drop (i * T) xs)) = take (S - T) (drop T (drop (i * T) xs))"
    by (simp only: drop_take)
  also have "\<dots> = take (S - T) (drop (Suc i * T) xs)" by (simp add: add.commute)
  also have "\<dots> = take (min (S - T) (length (take S (drop (Suc i * T) xs))))
        (take S (drop (Suc i * T) xs))"
    by (simp add: min_def)
  finally show ?thesis .
qed

subsection \<open>Counting the windows\<close>

lemma count_iff:
  assumes "0 < (st::int)"
  shows "i < nat ((len + st - 1) div st) \<longleftrightarrow> int i * st < len"
proof -
  let ?q = "(len + st - 1) div st"
  have "i < nat ?q \<longleftrightarrow> int i < ?q" by (rule zless_nat_eq_int_zless)
  also have "\<dots> \<longleftrightarrow> int i * st < len"
  proof
    assume "int i < ?q"
    then have "int i + 1 \<le> ?q" by simp
    then have "(int i + 1) * st \<le> ?q * st"
      using assms by (simp add: mult_right_mono)
    also have "?q * st \<le> len + st - 1"
    proof -
      have "len + st - 1 = ?q * st + (len + st - 1) mod st" by simp
      moreover have "0 \<le> (len + st - 1) mod st" using assms by simp
      ultimately show ?thesis by linarith
    qed
    finally have "int i * st + st \<le> len + st - 1" by (simp add: distrib_right)
    then show "int i * st < len" by simp
  next
    assume "int i * st < len"
    then have "(int i + 1) * st \<le> len + st - 1" by (simp add: distrib_right)
    then have "((int i + 1) * st) div st \<le> ?q"
      using assms by (rule zdiv_mono1)
    then have "int i + 1 \<le> ?q" using assms by simp
    then show "int i < ?q" by simp
  qed
  finally show ?thesis .
qed

subsection \<open>Slices\<close>

lemma py_slice_window:
  assumes "0 < S" and "0 \<le> a" and "a < int (length xs)"
  shows "py_slice xs a (min (a + S) (int (length xs))) = take (nat S) (drop (nat a) xs)"
proof (cases "a + S \<le> int (length xs)")
  case True
  then have "min (a + S) (int (length xs)) = a + S" by simp
  then show ?thesis
    using assms True by (simp add: py_slice_def py_clamp_def Let_def)
next
  case False
  then have m: "min (a + S) (int (length xs)) = int (length xs)" by simp
  have "length (drop (nat a) xs) \<le> nat S" using False assms by simp
  then have "take (nat S) (drop (nat a) xs) = drop (nat a) xs" by simp
  moreover have "py_slice xs a (int (length xs)) = drop (nat a) xs"
    using assms by (simp add: py_slice_def py_clamp_def Let_def nat_diff_distrib)
  ultimately show ?thesis using m by simp
qed

lemma window_take_drop:
  assumes "0 \<le> chunk_overlap ing" and "chunk_overlap ing < chunk_size ing"
    and "int i * (chunk_size ing - chunk_overlap ing) < int (length tokens)"
  shows "window ing tokens i
      = take (nat (chunk_size ing)) (drop (i * nat (chunk_size ing - chunk_overlap ing)) tokens)"
proof -
  let ?st = "chunk_size ing - chunk_overlap ing"
  have "0 < chunk_size ing" using assms by simp
  moreover have "0 \<le> int i * ?st" using assms by simp
  ultimately have "py_slice tokens (int i * ?st) (min (int i * ?st + chunk_size ing) (int (length tokens)))
      = take (nat (chunk_size ing)) (drop (nat (int i * ?st)) tokens)"
    using assms(3) by (rule py_slice_window)
  moreover have "nat (int i * ?st) = i * nat ?st"
    by (simp add: nat_mult_distrib)
  ultimately show ?thesis by (simp add: window_def Let_def)
qed

lemma make_chunk_fields:
  "chunk_index (make_chunk ing tokens fname pg ftype prio trust md (int i * (chunk_size ing - chunk_overlap ing)) i) = i"
  "token_count (make_chunk ing tokens fname pg ftype prio trust md (int i * (chunk_size ing - chunk_overlap ing)) i)
     = length (window ing tokens i)"
  "chunk_text (make_chunk ing tokens fname pg ftype prio trust md (int i * (chunk_size ing - chunk_overlap ing)) i)
     = strip (decode (tokenizer ing) (window ing tokens i))"
  "chunk_id (make_chunk ing tokens fname pg ftype prio trust md (int i * (chunk_size ing - chunk_overlap ing)) i)
     = fname @ ''_p'' @ str_nat pg @ ''_c'' @ str_nat i"
  by (simp_all add: make_chunk_def window_def Let_def)

lemma chunk_text_impl_closed:
  assumes "0 < chunk_size ing - chunk_overlap ing"
  shows "chunk_text_impl ing text fname pg ftype prio trust md =
     Some (map (\<lambda>i. make_chunk ing (encode (tokenizer ing) text) fname pg ftype prio trust md
                    (int i * (chunk_size ing - chunk_overlap ing)) i)
        [0 ..< nat ((int (length (encode (tokenizer ing) text)) + (chunk_size ing - chunk_overlap ing) - 1)
                     div (chunk_size ing - chunk_overlap ing))])"
  using chunk_loop_closed [OF assms, of "encode (tokenizer ing) text"
      "make_chunk ing (encode (tokenizer ing) text) fname pg ftype prio trust md" 0 0 "[]"]
  by (simp add: chunk_text_impl_def Let_def)

subsection \<open>Tiling of the token sequence\<close>

text \<open>
  Claim C3 as stated fails. With \<open>chunk_size = 5\<close>, \<open>chunk_overlap = 2\<close> and seven tokens
  the chunks hold 5, 4 and 1 tokens: the last two chunks share one token, not two, and
  the token counts less the declared overlaps give \<open>5 + 4 + 1 - 2 * 2 = 6\<close>, not 7. With
  \<open>chunk_size = 2\<close>, \<open>chunk_overlap = -1\<close> and four tokens the third token is in no chunk.
\<close>

theorem chunk_overlap_counterexample:
  "map_option (map token_count)
     (chunk_text_impl (sample_ingestor 5 2) ''abcdefg'' ''f.txt'' 1 ''txt'' ''normal'' True None)
     = Some [5, 4, 1] \<and>
   map_option (map chunk_text)
     (chunk_text_impl (sample_ingestor 5 2) ''abcdefg'' ''f.txt'' 1 ''txt'' ''normal'' True None)
     = Some [''abcde'', ''defg'', ''g''] \<and>
   map_option (map chunk_text)
     (chunk_text_impl (sample_ingestor 2 (- 1)) ''abcd'' ''f.txt'' 1 ''txt'' ''normal'' True None)
     = Some [''ab'', ''d'']"
proof (intro conjI)
  show "map_option (map token_count)
     (chunk_text_impl (sample_ingestor 5 2) ''abcdefg'' ''f.txt'' 1 ''txt'' ''normal'' True None)
     = Some [5, 4, 1]"
    by (subst chunk_text_impl_closed, simp add: sample_ingestor_def, code_simp)
  show "map_option (map chunk_text)
     (chunk_text_impl (sample_ingestor 5 2) ''abcdefg'' ''f.txt'' 1 ''txt'' ''normal'' True None)
     = Some [''abcde'', ''defg'', ''g'']"
    by (subst chunk_text_impl_closed, simp add: sample_ingestor_def, code_simp)
  show "map_option (map chunk_text)
     (chunk_text_impl (sample_ingestor 2 (- 1)) ''abcd'' ''f.txt'' 1 ''txt'' ''normal'' True None)
     = Some [''ab'', ''d'']"
    by (subst chunk_text_impl_closed, simp add: sample_ingestor_def, code_simp)
qed

text \<open>
  Claim C3, amended. For every text and every configuration with
  \<open>0 \<le> chunk_overlap < chunk_size\<close>, the chunker returns, and with
  \<open>step = chunk_size - chunk_overlap\<close>: there is one chunk for every window start
  \<open>0, step, 2 * step, ...\<close> below the number of tokens; chunk \<open>i\<close> has \<open>chunk_index = i\<close> and
  holds the at most \<open>chunk_size\<close> tokens from position \<open>i * step\<close>; chunk 0 followed by
  every later chunk without its first \<open>chunk_overlap\<close> tokens is exactly the token sequence;
  and the tokens of chunk \<open>i\<close> after its first \<open>step\<close> are the first
  \<open>min chunk_overlap (token_count of chunk i + 1)\<close> tokens of chunk \<open>i + 1\<close>, so two
  consecutive chunks share exactly \<open>chunk_overlap\<close> tokens whenever the later one has at
  least that many.
\<close>

theorem chunking_tiles_tokens:
  assumes "0 \<le> chunk_overlap ing" and "chunk_overlap ing < chunk_size ing"
  shows "\<exists>cs. chunk_text_impl ing text fname pg ftype prio trust md = Some cs \<and>
     (\<forall>i. i < length cs \<longleftrightarrow>
            int i * (chunk_size ing - chunk_overlap ing) < int (length (encode (tokenizer ing) text))) \<and>
     (\<forall>i. i < length cs \<longrightarrow>
        chunk_index (cs ! i) = i \<and>
        token_count (cs ! i) = length (window ing (encode (tokenizer ing) text) i) \<and>
        int (token_count (cs ! i)) \<le> chunk_size ing \<and>
        chunk_text (cs ! i) = strip (decode (tokenizer ing) (window ing (encode (tokenizer ing) text) i)) \<and>
        window ing (encode (tokenizer ing) text) i
          = take (nat (chunk_size ing))
              (drop (i * nat (chunk_size ing - chunk_overlap ing)) (encode (tokenizer ing) text))) \<and>
     concat (map (\<lambda>i. if i = 0 then window ing (encode (tokenizer ing) text) i
                       else drop (nat (chunk_overlap ing)) (window ing (encode (tokenizer ing) text) i))
              [0 ..< length cs])
       = encode (tokenizer ing) text \<and>
     (\<forall>i. Suc i < length cs \<longrightarrow>
        drop (nat (chunk_size ing - chunk_overlap ing)) (window ing (encode (tokenizer ing) text) i)
          = take (min (nat (chunk_overlap ing)) (token_count (cs ! Suc i)))
              (window ing (encode (tokenizer ing) text) (Suc i)) \<and>
        length (drop (nat (chunk_size ing - chunk_overlap ing)) (window ing (encode (tokenizer ing) text) i))
          = min (nat (chunk_overlap ing)) (token_count (cs ! Suc i)))"
proof -
  let ?tokens = "encode (tokenizer ing) text"
  let ?st = "chunk_size ing - chunk_overlap ing"
  let ?S = "nat (chunk_size ing)"
  let ?T = "nat ?st"
  let ?k = "nat ((int (length ?tokens) + ?st - 1) div ?st)"
  let ?mk = "\<lambda>i. make_chunk ing ?tokens fname pg ftype prio trust md (int i * ?st) i"
  let ?cs = "map ?mk [0 ..< ?k]"
  let ?W = "\<lambda>i. take ?S (drop (i * ?T) ?tokens)"
  have st: "0 < ?st" using assms by simp
  have TS: "?T \<le> ?S" using assms by simp
  have ov: "nat (chunk_overlap ing) = ?S - ?T" using assms by (simp add: nat_diff_distrib)
  have ret: "chunk_text_impl ing text fname pg ftype prio trust md = Some ?cs"
    by (rule chunk_text_impl_closed [OF st])
  have len: "length ?cs = ?k" by simp
  have cnt: "i < ?k \<longleftrightarrow> int i * ?st < int (length ?tokens)" for i
    by (rule count_iff [OF st])
  have win: "window ing ?tokens i = ?W i" if "i < ?k" for i
    using that cnt window_take_drop [OF assms] by blast
  have nth: "?cs ! i = ?mk i" if "i < ?k" for i
    using that by simp
  have p1: "\<forall>i. i < length ?cs \<longleftrightarrow> int i * ?st < int (length ?tokens)"
    using cnt len by simp
  have p2: "\<forall>i. i < length ?cs \<longrightarrow>
        chunk_index (?cs ! i) = i \<and>
        token_count (?cs ! i) = length (window ing ?tokens i) \<and>
        int (token_count (?cs ! i)) \<le> chunk_size ing \<and>
        chunk_text (?cs ! i) = strip (decode (tokenizer ing) (window ing ?tokens i)) \<and>
        window ing ?tokens i = ?W i"
  proof (intro allI impI)
    fix i assume "i < length ?cs"
    then have i: "i < ?k" by simp
    have tc: "token_count (?cs ! i) = length (window ing ?tokens i)"
      by (simp only: nth [OF i] make_chunk_fields)
    have "length (window ing ?tokens i) \<le> ?S"
      by (simp only: win [OF i]) simp
    then have le: "int (token_count (?cs ! i)) \<le> chunk_size ing"
      using tc assms by simp
    have "chunk_index (?cs ! i) = i"
      by (simp only: nth [OF i] make_chunk_fields)
    moreover have "chunk_text (?cs ! i) = strip (decode (tokenizer ing) (window ing ?tokens i))"
      by (simp only: nth [OF i] make_chunk_fields)
    ultimately show "chunk_index (?cs ! i) = i \<and>
        token_count (?cs ! i) = length (window ing ?tokens i) \<and>
        int (token_count (?cs ! i)) \<le> chunk_size ing \<and>
        chunk_text (?cs ! i) = strip (decode (tokenizer ing) (window ing ?tokens i)) \<and>
        window ing ?tokens i = ?W i"
      using tc le win [OF i] by blast
  qed
  have p3: "concat (map (\<lambda>i. if i = 0 then window ing ?tokens i
                       else drop (nat (chunk_overlap ing)) (window ing ?tokens i))
              [0 ..< length ?cs]) = ?tokens"
  proof (cases "?k = 0")
    case True
    then have "\<not> int 0 * ?st < int (length ?tokens)" using cnt [of 0] by simp
    then have "?tokens = []" by simp
    with True show ?thesis by simp
  next
    case False
    then have k1: "1 \<le> ?k" by simp
    have meq: "map (\<lambda>i. if i = 0 then window ing ?tokens i
                       else drop (nat (chunk_overlap ing)) (window ing ?tokens i)) [0 ..< ?k]
        = map (\<lambda>i. if i = 0 then ?W i else drop (?S - ?T) (?W i)) [0 ..< ?k]"
      by (rule map_cong) (simp_all add: win ov)
    have "concat (map (\<lambda>i. if i = 0 then window ing ?tokens i
                       else drop (nat (chunk_overlap ing)) (window ing ?tokens i)) [0 ..< ?k])
        = concat (map (\<lambda>i. if i = 0 then ?W i else drop (?S - ?T) (?W i)) [0 ..< ?k])"
      by (simp only: meq)
    also have "\<dots> = take ((?k - 1) * ?T + ?S) ?tokens"
      by (rule tiling_prefix [OF TS k1])
    finally have "concat (map (\<lambda>i. if i = 0 then window ing ?tokens i
                       else drop (nat (chunk_overlap ing)) (window ing ?tokens i)) [0 ..< ?k])
        = take ((?k - 1) * ?T + ?S) ?tokens" .
    moreover have "length ?tokens \<le> (?k - 1) * ?T + ?S"
    proof -
      have "\<not> int ?k * ?st < int (length ?tokens)" using cnt [of ?k] by simp
      then have "int (length ?tokens) \<le> int ?k * ?st" by simp
      also have "\<dots> = int (?k * ?T)" using st by simp
      finally have "length ?tokens \<le> ?k * ?T" by (simp only: of_nat_le_iff)
      also have "?k * ?T = (?k - 1) * ?T + ?T" using k1 by (cases ?k) simp_all
      also have "\<dots> \<le> (?k - 1) * ?T + ?S" using TS by simp
      finally show ?thesis .
    qed
    ultimately show ?thesis by (simp only: len) simp
  qed
  have p4: "\<forall>i. Suc i < length ?cs \<longrightarrow>
        drop ?T (window ing ?tokens i)
          = take (min (nat (chunk_overlap ing)) (token_count (?cs ! Suc i)))
              (window ing ?tokens (Suc i)) \<and>
        length (drop ?T (window ing ?tokens i))
          = min (nat (chunk_overlap ing)) (token_count (?cs ! Suc i))"
  proof (intro allI impI)
    fix i assume "Suc i < length ?cs"
    then have si: "Suc i < ?k" and i: "i < ?k" by simp_all
    have tc: "token_count (?cs ! Suc i) = length (?W (Suc i))"
      by (simp only: nth [OF si] make_chunk_fields win [OF si])
    have eq: "drop ?T (?W i) = take (min (?S - ?T) (length (?W (Suc i)))) (?W (Suc i))"
      by (rule window_overlap [OF TS])
    have lt: "length (take (min a (length ys)) ys) = min a (length ys)" for a and ys :: "nat list"
      by simp
    have "length (drop ?T (?W i)) = length (take (min (?S - ?T) (length (?W (Suc i)))) (?W (Suc i)))"
      by (simp only: eq)
    also have "\<dots> = min (?S - ?T) (length (?W (Suc i)))"
      by (rule lt)
    finally have "length (drop ?T (?W i)) = min (?S - ?T) (length (?W (Suc i)))" .
    with eq show "drop ?T (window ing ?tokens i)
          = take (min (nat (chunk_overlap ing)) (token_count (?cs ! Suc i)))
              (window ing ?tokens (Suc i)) \<and>
        length (drop ?T (window ing ?tokens i))
          = min (nat (chunk_overlap ing)) (token_count (?cs ! Suc i))"
      by (simp only: win [OF i] win [OF si] tc ov)
  qed
  from ret p1 p2 p3 p4 show ?thesis by blast
qed

lemma sample_token_counts:
  "map_option (map token_count)
     (chunk_text_impl (sample_ingestor 5 2) ''abcdefg'' ''f.txt'' 1 ''txt'' ''normal'' True None)
     = Some [5, 4, 1]"
  by (subst chunk_text_impl_closed, simp add: sample_ingestor_def, code_simp)

theorem chunking_tiles_tokens_witness:
  "0 \<le> chunk_overlap (sample_ingestor 5 2) \<and>
   chunk_overlap (sample_ingestor 5 2) < chunk_size (sample_ingestor 5 2) \<and>
   (\<exists>cs. chunk_text_impl (sample_ingestor 5 2) ''abcdefg'' ''f.txt'' 1 ''txt'' ''normal'' True None
           = Some cs \<and>
      map token_count cs = [5, 4, 1] \<and> chunk_index (cs ! 2) = 2 \<and>
      concat (map (\<lambda>i. if i = 0 then window (sample_ingestor 5 2) [97, 98, 99, 100, 101, 102, 103] i
                         else drop 2 (window (sample_ingestor 5 2) [97, 98, 99, 100, 101, 102, 103] i))
                [0 ..< 3])
        = [97, 98, 99, 100, 101, 102, 103])"
proof -
  have h1: "0 \<le> chunk_overlap (sample_ingestor 5 2)" by (simp add: sample_ingestor_def)
  have h2: "chunk_overlap (sample_ingestor 5 2) < chunk_size (sample_ingestor 5 2)"
    by (simp add: sample_ingestor_def)
  have enc: "encode (tokenizer (sample_ingestor 5 2)) ''abcdefg'' = [97, 98, 99, 100, 101, 102, 103]"
    by (simp add: sample_ingestor_def char_tokenizer_def)
  obtain cs where ret: "chunk_text_impl (sample_ingestor 5 2) ''abcdefg'' ''f.txt'' 1 ''txt''
        ''normal'' True None = Some cs"
    and idx: "\<forall>i. i < length cs \<longrightarrow> chunk_index (cs ! i) = i"
    and tile: "concat (map (\<lambda>i. if i = 0
                 then window (sample_ingestor 5 2) (encode (tokenizer (sample_ingestor 5 2)) ''abcdefg'') i
                 else drop (nat (chunk_overlap (sample_ingestor 5 2)))
                        (window (sample_ingestor 5 2) (encode (tokenizer (sample_ingestor 5 2)) ''abcdefg'') i))
              [0 ..< length cs])
       = encode (tokenizer (sample_ingestor 5 2)) ''abcdefg''"
    using chunking_tiles_tokens [OF h1 h2, of "''abcdefg''" "''f.txt''" 1 "''txt''" "''normal''" True None]
    by blast
  have tc: "map token_count cs = [5, 4, 1]"
    using sample_token_counts ret by simp
  then have len: "length cs = 3" using length_map [of token_count cs] by simp
  have ci: "chunk_index (cs ! 2) = 2" using idx len by simp
  have ov2: "nat (chunk_overlap (sample_ingestor 5 2)) = 2" by (simp add: sample_ingestor_def)
  have tl: "concat (map (\<lambda>i. if i = 0 then window (sample_ingestor 5 2) [97, 98, 99, 100, 101, 102, 103] i
                         else drop 2 (window (sample_ingestor 5 2) [97, 98, 99, 100, 101, 102, 103] i))
                [0 ..< 3])
        = [97, 98, 99, 100, 101, 102, 103]"
    using tile unfolding enc len ov2 .
  have "\<exists>cs. chunk_text_impl (sample_ingestor 5 2) ''abcdefg'' ''f.txt'' 1 ''txt'' ''normal'' True None
           = Some cs \<and>
      map token_count cs = [5, 4, 1] \<and> chunk_index (cs ! 2) = 2 \<and>
      concat (map (\<lambda>i. if i = 0 then window (sample_ingestor 5 2) [97, 98, 99, 100, 101, 102, 103] i
                         else drop 2 (window (sample_ingestor 5 2) [97, 98, 99, 100, 101, 102, 103] i))
                [0 ..< 3])
        = [97, 98, 99, 100, 101, 102, 103]"
    using ret tc ci tl by (intro exI [of _ cs] conjI)
  with h1 h2 show ?thesis by (intro conjI)
qed

subsection \<open>Whitespace-only text\<close>

lemma chunk_text_impl_nonempty:
  assumes "0 < chunk_size ing - chunk_overlap ing" and "encode (tokenizer ing) text \<noteq> []"
  shows "\<exists>c cs. chunk_text_impl ing text fname pg ftype prio trust md = Some (c # cs)"
proof -
  let ?st = "chunk_size ing - chunk_overlap ing"
  let ?k = "nat ((int (length (encode (tokenizer ing) text)) + ?st - 1) div ?st)"
  have "int 0 * ?st < int (length (encode (tokenizer ing) text))" using assms(2) by simp
  then have "0 < ?k" using count_iff [OF assms(1), of 0] by blast
  then obtain j where k: "?k = Suc j" by (cases ?k) simp_all
  have "[0 ..< ?k] = 0 # [Suc 0 ..< ?k]" unfolding k by (rule upt_conv_Cons) simp
  then show ?thesis
    using chunk_text_impl_closed [OF assms(1), of "text" fname pg ftype prio trust md] by simp
qed

lemma whitespace_file_yields_chunk:
  assumes "disk filepath = Some text" and "strip text = []"
    and "encode (tokenizer ing) text \<noteq> []"
    and "0 < chunk_size ing - chunk_overlap ing"
  shows "\<exists>c cs. ingest_text ing disk filepath fname prio trust = Some (Inr (c # cs))"
  using chunk_text_impl_nonempty [OF assms(4,3), of fname 1 "''txt''" prio trust None] assms(1)
  by (auto simp: ingest_text_def)

lemma pdf_blank_pages_skipped:
  assumes "\<forall>p\<in>set pages. strip (fst p) = []"
  shows "ingest_pdf_pages ing fname prio trust pages page_num chunks = Some chunks"
  using assms by (induction pages arbitrary: page_num) auto

text \<open>
  Claim C7 at the failing input: a text file holding a single space, ingested with the
  default chunk size and overlap, yields one chunk whose text is empty and whose token
  count is 1. The PDF path skips such a page (\<open>pdf_blank_pages_skipped\<close>); the text path
  has no such test.
\<close>

theorem whitespace_text_file_chunked:
  "strip '' '' = [] \<and>
   ingest_text (sample_ingestor 600 100) (sample_disk ''blank.txt'' '' '') ''blank.txt''
       ''blank.txt'' ''normal'' True
     = Some (Inr [\<lparr>chunk_id = ''blank.txt_p1_c0'', filename = ''blank.txt'', page = 1,
                    chunk_text = [], token_count = 1, chunk_index = 0, file_type = ''txt'',
                    priority = ''normal'', trusted = True, metadata = []\<rparr>])"
proof
  show "strip '' '' = []" by (simp add: strip_def isspace_def)
  have "chunk_text_impl (sample_ingestor 600 100) '' '' ''blank.txt'' 1 ''txt'' ''normal'' True None
      = Some [\<lparr>chunk_id = ''blank.txt_p1_c0'', filename = ''blank.txt'', page = 1,
                chunk_text = [], token_count = 1, chunk_index = 0, file_type = ''txt'',
                priority = ''normal'', trusted = True, metadata = []\<rparr>]"
    by (subst chunk_text_impl_closed, simp add: sample_ingestor_def, code_simp)
  then show "ingest_text (sample_ingestor 600 100) (sample_disk ''blank.txt'' '' '') ''blank.txt''
       ''blank.txt'' ''normal'' True
     = Some (Inr [\<lparr>chunk_id = ''blank.txt_p1_c0'', filename = ''blank.txt'', page = 1,
                    chunk_text = [], token_count = 1, chunk_index = 0, file_type = ''txt'',
                    priority = ''normal'', trusted = True, metadata = []\<rparr>])"
    by (simp add: ingest_text_def sample_disk_def)
qed

subsection \<open>An overlap that is not below the chunk size\<close>

lemma chunk_text_impl_diverges:
  assumes "chunk_size ing \<le> chunk_overlap ing" and "encode (tokenizer ing) text \<noteq> []"
  shows "chunk_text_impl ing text fname pg ftype prio trust md = None"
proof -
  have "chunk_size ing - chunk_overlap ing \<le> 0" using assms(1) by simp
  moreover have "0 < int (length (encode (tokenizer ing) text))" using assms(2) by simp
  ultimately show ?thesis
    unfolding chunk_text_impl_def Let_def by (rule chunk_loop_diverges)
qed

text \<open>
  Claim C9 at the failing input: the constructor accepts \<open>chunk_size = 100\<close>,
  \<open>chunk_overlap = 100\<close> without an error, and chunking a one-character text under that
  configuration never returns.
\<close>

theorem overlap_not_below_size_accepted:
  "init_ingestor char_tokenizer 100 100 = Inr (sample_ingestor 100 100) \<and>
   chunk_text_impl (sample_ingestor 100 100) ''a'' ''f.txt'' 1 ''txt'' ''normal'' True None = None \<and>
   ingest_text (sample_ingestor 100 100) (sample_disk ''f.txt'' ''a'') ''f.txt'' ''f.txt''
       ''normal'' True = None"
proof -
  have a: "init_ingestor char_tokenizer 100 100 = Inr (sample_ingestor 100 100)"
    by (simp add: init_ingestor_def sample_ingestor_def)
  have b: "chunk_text_impl (sample_ingestor 100 100) ''a'' ''f.txt'' 1 ''txt'' ''normal'' True None
      = None"
    by (rule chunk_text_impl_diverges) (simp_all add: sample_ingestor_def char_tokenizer_def)
  have c: "ingest_text (sample_ingestor 100 100) (sample_disk ''f.txt'' ''a'') ''f.txt'' ''f.txt''
       ''normal'' True = None"
    using b by (simp add: ingest_text_def sample_disk_def)
  from a b c show ?thesis by (intro conjI)
qed

section \<open>Properties of the retriever\<close>




lemma similarity_rerank: "map similarity (rerank chunks) = map similarity chunks"
proof -
  have "map similarity (rerank chunks) = map (similarity \<circ> snd) (enumerate 0 chunks)"
    by (simp add: rerank_def split_def comp_def)
  also have "\<dots> = map similarity (map snd (enumerate 0 chunks))" by (simp only: map_map)
  also have "\<dots> = map similarity chunks" by (simp only: map_snd_enumerate)
  finally show ?thesis .
qed




lemma boost_chunk_fields:
  "boosted_similarity (boost_chunk fl c) = Some (fmul fl (similarity c) (boost_of fl (rc_metadata c)))"
  "similarity (boost_chunk fl c) = similarity c"
  "rc_metadata (boost_chunk fl c) = rc_metadata c"
  by (simp_all add: boost_chunk_def)

lemma in_rerank:
  assumes "c \<in> set (rerank xs)"
  shows "\<exists>c0\<in>set xs. \<exists>i. c = c0\<lparr>rank := i\<rparr>"
proof -
  from assms obtain p where p: "p \<in> set (enumerate 0 xs)" and c: "c = (snd p)\<lparr>rank := fst p\<rparr>"
    by (auto simp: rerank_def split_def)
  from p have "fst p < length xs" and "xs ! fst p = snd p"
    by (auto simp: in_set_enumerate_eq)
  then have "snd p \<in> set xs" using nth_mem by metis
  with c show ?thesis by blast
qed

lemma apply_priority_boost_formula:
  assumes "c \<in> set (apply_priority_boost fl chunks)"
  shows "boosted_similarity c = Some (fmul fl (similarity c) (boost_of fl (rc_metadata c)))"
proof -
  from assms obtain c0 i where c: "c = c0\<lparr>rank := i\<rparr>"
    and "c0 \<in> set (sort_key (\<lambda>x. - boosted_key x) (map (boost_chunk fl) chunks))"
    unfolding apply_priority_boost_def using in_rerank by blast
  then have "c0 \<in> set (map (boost_chunk fl) chunks)" by simp
  then obtain c1 where "c0 = boost_chunk fl c1" by auto
  with c show ?thesis by (simp add: boost_chunk_fields)
qed


lemma boost_key_apply:
  assumes "c \<in> set (apply_priority_boost fl chunks)"
  shows "boosted_key c = fmul fl (similarity c) (boost_of fl (rc_metadata c))"
  using apply_priority_boost_formula [OF assms] by (simp add: boosted_key_def)






lemma retrieve_writable:
  "writable fs \<Longrightarrow>
   \<exists>fs'. retrieve fl r clk fs q top_k_arg flt boost
           = Inr (retrieved_chunks fl r q top_k_arg flt boost, fs')"
  by (simp add: retrieve_def log_retrieval_def append_line_def Let_def)







section \<open>The audit log and the caller\<close>

lemma validate_solution_unwritable:
  "\<not> writable fs \<Longrightarrow> validate_solution v clk fs steps chunks md = Inl OSError"
  by (simp add: validate_solution_def log_validation_def append_line_def Let_def)

lemma retrieve_unwritable:
  "\<not> writable fs \<Longrightarrow> retrieve fl r clk fs q top_k_arg flt boost = Inl OSError"
  by (simp add: retrieve_def log_retrieval_def append_line_def Let_def)

lemma validate_solution_appends:
  assumes "writable fs"
    and "validate_solution v clk fs steps chunks md = Inr (res, fs')"
  shows "\<exists>e. files fs' (''validation_'' @ today clk @ ''.jsonl'') =
           Some ((case files fs (''validation_'' @ today clk @ ''.jsonl'') of
                    None \<Rightarrow> [] | Some ls \<Rightarrow> ls) @ [e])"
  using assms by (auto simp: validate_solution_def log_validation_def append_line_def Let_def)

lemma retrieve_appends:
  assumes "writable fs"
    and "retrieve fl r clk fs q top_k_arg flt boost = Inr (res, fs')"
  shows "\<exists>e. files fs' (''retrieval_'' @ today clk @ ''.jsonl'') =
           Some ((case files fs (''retrieval_'' @ today clk @ ''.jsonl'') of
                    None \<Rightarrow> [] | Some ls \<Rightarrow> ls) @ [e])"
  using assms by (auto simp: retrieve_def log_retrieval_def append_line_def Let_def)

text \<open>
  Claim C8 as stated fails: with a log directory that cannot be written, both calls
  raise the writer's error and return no result.
\<close>

theorem log_failure_counterexample:
  "validate_solution sample_validator sample_clock (empty_log False)
       [sample_step 1 ''x = 4''] [sample_chunk ''x = 4''] ''prefer'' = Inl OSError \<and>
   retrieve exact_arith sample_retriever sample_clock (empty_log False) ''q'' (Some 2) None True = Inl OSError"
  by (simp add: validate_solution_unwritable retrieve_unwritable empty_log_def)

text \<open>
  Claim C8, amended. \<open>retrieve\<close> and \<open>validate_solution\<close> write the audit-log entry after
  computing their result and before returning it. When the write succeeds the computed
  result is returned and one entry is appended to the day's log file; when the write
  fails the error propagates to the caller and no result is returned.
\<close>

theorem log_write_decides_return:
  "(writable vfs \<longrightarrow>
      (\<exists>vfs' e. validate_solution v clk vfs steps chunks md
                   = Inr (validation_result v steps chunks md, vfs') \<and>
          files vfs' (''validation_'' @ today clk @ ''.jsonl'') =
            Some ((case files vfs (''validation_'' @ today clk @ ''.jsonl'') of
                     None \<Rightarrow> [] | Some ls \<Rightarrow> ls) @ [e]))) \<and>
   (\<not> writable vfs \<longrightarrow> validate_solution v clk vfs steps chunks md = Inl OSError) \<and>
   (writable rfs \<longrightarrow>
      (\<exists>rfs' e. retrieve fl r clk rfs q top_k_arg flt boost
                   = Inr (retrieved_chunks fl r q top_k_arg flt boost, rfs') \<and>
          files rfs' (''retrieval_'' @ today clk @ ''.jsonl'') =
            Some ((case files rfs (''retrieval_'' @ today clk @ ''.jsonl'') of
                     None \<Rightarrow> [] | Some ls \<Rightarrow> ls) @ [e]))) \<and>
   (\<not> writable rfs \<longrightarrow> retrieve fl r clk rfs q top_k_arg flt boost = Inl OSError)"
proof (intro conjI impI)
  assume w: "writable vfs"
  then obtain vfs' where ret: "validate_solution v clk vfs steps chunks md
      = Inr (validation_result v steps chunks md, vfs')"
    using validate_solution_writable by blast
  with w validate_solution_appends obtain e where
    "files vfs' (''validation_'' @ today clk @ ''.jsonl'') =
       Some ((case files vfs (''validation_'' @ today clk @ ''.jsonl'') of
                None \<Rightarrow> [] | Some ls \<Rightarrow> ls) @ [e])"
    by blast
  with ret show "\<exists>vfs' e. validate_solution v clk vfs steps chunks md
                   = Inr (validation_result v steps chunks md, vfs') \<and>
          files vfs' (''validation_'' @ today clk @ ''.jsonl'') =
            Some ((case files vfs (''validation_'' @ today clk @ ''.jsonl'') of
                     None \<Rightarrow> [] | Some ls \<Rightarrow> ls) @ [e])"
    by blast
next
  assume "\<not> writable vfs"
  then show "validate_solution v clk vfs steps chunks md = Inl OSError"
    by (rule validate_solution_unwritable)
next
  assume w: "writable rfs"
  then obtain rfs' where ret: "retrieve fl r clk rfs q top_k_arg flt boost
      = Inr (retrieved_chunks fl r q top_k_arg flt boost, rfs')"
    using retrieve_writable by blast
  with w retrieve_appends obtain e where
    "files rfs' (''retrieval_'' @ today clk @ ''.jsonl'') =
       Some ((case files rfs (''retrieval_'' @ today clk @ ''.jsonl'') of
                None \<Rightarrow> [] | Some ls \<Rightarrow> ls) @ [e])"
    by blast
  with ret show "\<exists>rfs' e. retrieve fl r clk rfs q top_k_arg flt boost
                   = Inr (retrieved_chunks fl r q top_k_arg flt boost, rfs') \<and>
          files rfs' (''retrieval_'' @ today clk @ ''.jsonl'') =
            Some ((case files rfs (''retrieval_'' @ today clk @ ''.jsonl'') of
                     None \<Rightarrow> [] | Some ls \<Rightarrow> ls) @ [e])"
    by blast
next
  assume "\<not> writable rfs"
  then show "retrieve fl r clk rfs q top_k_arg flt boost = Inl OSError"
    by (rule retrieve_unwritable)
qed

theorem log_write_decides_return_witness:
  "writable (empty_log True :: validation_log_entry log_dir) \<and>
   \<not> writable (empty_log False :: retrieval_log_entry log_dir) \<and>
   (\<exists>vfs' e. validate_solution sample_validator sample_clock (empty_log True)
        [sample_step 1 ''x = 4''] [sample_chunk ''x = 4''] ''prefer''
        = Inr (validation_result sample_validator [sample_step 1 ''x = 4'']
                 [sample_chunk ''x = 4''] ''prefer'', vfs') \<and>
      files vfs' ''validation_20240101.jsonl'' = Some [e]) \<and>
   retrieve exact_arith sample_retriever sample_clock (empty_log False) ''q'' (Some 2) None True = Inl OSError"
proof -
  have w: "writable (empty_log True :: validation_log_entry log_dir)"
    by (simp add: empty_log_def)
  have nw: "\<not> writable (empty_log False :: retrieval_log_entry log_dir)"
    by (simp add: empty_log_def)
  note t = log_write_decides_return [where vfs = "empty_log True" and v = sample_validator
      and clk = sample_clock and steps = "[sample_step 1 ''x = 4'']"
      and chunks = "[sample_chunk ''x = 4'']" and md = "''prefer''" and rfs = "empty_log False"
      and fl = exact_arith and r = sample_retriever and q = "''q''" and top_k_arg = "Some 2"
      and flt = None and boost = True]
  from t w have "\<exists>vfs' e. validate_solution sample_validator sample_clock (empty_log True)
        [sample_step 1 ''x = 4''] [sample_chunk ''x = 4''] ''prefer''
        = Inr (validation_result sample_validator [sample_step 1 ''x = 4'']
                 [sample_chunk ''x = 4''] ''prefer'', vfs') \<and>
      files vfs' (''validation_'' @ today sample_clock @ ''.jsonl'') =
            Some ((case files (empty_log True :: validation_log_entry log_dir)
                     (''validation_'' @ today sample_clock @ ''.jsonl'') of
                     None \<Rightarrow> [] | Some ls \<Rightarrow> ls) @ [e])"
    by blast
  then have a: "\<exists>vfs' e. validate_solution sample_validator sample_clock (empty_log True)
        [sample_step 1 ''x = 4''] [sample_chunk ''x = 4''] ''prefer''
        = Inr (validation_result sample_validator [sample_step 1 ''x = 4'']
                 [sample_chunk ''x = 4''] ''prefer'', vfs') \<and>
      files vfs' ''validation_20240101.jsonl'' = Some [e]"
    by (simp add: sample_clock_def empty_log_def)
  from t nw have b: "retrieve exact_arith sample_retriever sample_clock (empty_log False) ''q'' (Some 2) None True
      = Inl OSError"
    by blast
  show ?thesis using w nw a b by (intro conjI)
qed

subsection \<open>The textual check\<close>

lemma take3_drop:
  assumes "i + 3 \<le> length xs"
  shows "take 3 (drop i xs) = [xs ! i, xs ! (i + 1), xs ! (i + 2)]"
proof -
  have a: "drop i xs = xs ! i # drop (Suc i) xs"
    using Cons_nth_drop_Suc [of i xs] assms by simp
  have b: "drop (Suc i) xs = xs ! Suc i # drop (Suc (Suc i)) xs"
    using Cons_nth_drop_Suc [of "Suc i" xs] assms by simp
  have c: "drop (Suc (Suc i)) xs = xs ! Suc (Suc i) # drop (Suc (Suc (Suc i))) xs"
    using Cons_nth_drop_Suc [of "Suc (Suc i)" xs] assms by simp
  have "take 3 (drop i xs) = take (Suc (Suc (Suc 0))) (drop i xs)"
    by (simp only: numeral_3_eq_3)
  also have "\<dots> = [xs ! i, xs ! Suc i, xs ! Suc (Suc i)]"
    by (simp only: a b c take_Suc_Cons take_0)
  finally show ?thesis by simp
qed

lemma ngrams3_iff:
  "g \<in> ngrams 3 tokens \<longleftrightarrow>
     (\<exists>i. i + 3 \<le> length tokens \<and>
          g = join '' '' [tokens ! i, tokens ! (i + 1), tokens ! (i + 2)])"
proof
  assume "g \<in> ngrams 3 tokens"
  then obtain i where i: "i < length tokens + 1 - 3" and g: "g = join '' '' (take 3 (drop i tokens))"
    by (auto simp: ngrams_def)
  from i have "i + 3 \<le> length tokens" by simp
  with g take3_drop show "\<exists>i. i + 3 \<le> length tokens \<and>
          g = join '' '' [tokens ! i, tokens ! (i + 1), tokens ! (i + 2)]"
    by metis
next
  assume "\<exists>i. i + 3 \<le> length tokens \<and>
          g = join '' '' [tokens ! i, tokens ! (i + 1), tokens ! (i + 2)]"
  then obtain i where i: "i + 3 \<le> length tokens"
    and g: "g = join '' '' [tokens ! i, tokens ! (i + 1), tokens ! (i + 2)]"
    by blast
  from i have "i < length tokens + 1 - 3" by simp
  moreover have "g = join '' '' (take 3 (drop i tokens))"
    using g take3_drop [OF i] by simp
  ultimately show "g \<in> ngrams 3 tokens"
    by (auto simp: ngrams_def)
qed

lemma compute_ngram_overlap_card:
  "compute_ngram_overlap text1 text2 3 =
     card {g. (\<exists>i. i + 3 \<le> length (split_ws (lower text1)) \<and>
                    g = join '' '' [split_ws (lower text1) ! i, split_ws (lower text1) ! (i + 1),
                                    split_ws (lower text1) ! (i + 2)]) \<and>
              (\<exists>j. j + 3 \<le> length (split_ws (lower text2)) \<and>
                    g = join '' '' [split_ws (lower text2) ! j, split_ws (lower text2) ! (j + 1),
                                    split_ws (lower text2) ! (j + 2)])}"
proof -
  have "ngrams 3 (split_ws (lower text1)) \<inter> ngrams 3 (split_ws (lower text2)) =
     {g. (\<exists>i. i + 3 \<le> length (split_ws (lower text1)) \<and>
                    g = join '' '' [split_ws (lower text1) ! i, split_ws (lower text1) ! (i + 1),
                                    split_ws (lower text1) ! (i + 2)]) \<and>
              (\<exists>j. j + 3 \<le> length (split_ws (lower text2)) \<and>
                    g = join '' '' [split_ws (lower text2) ! j, split_ws (lower text2) ! (j + 1),
                                    split_ws (lower text2) ! (j + 2)])}"
    by (rule set_eqI) (simp only: Int_iff ngrams3_iff mem_Collect_eq)
  then show ?thesis by (simp only: compute_ngram_overlap_def Let_def)
qed

lemma check_textual_support_chunk_id:
  assumes "chunk_texts \<noteq> []"
  shows "ts_chunk_id (check_textual_support v step chunk_texts chunks)
           = (if chunks \<noteq> []
              then Some (rc_chunk_id (chunks ! argmax (map (cosine_sim v step) chunk_texts)))
              else None)"
  using assms by (simp add: check_textual_support_def Let_def)



lemma argmax_from_first:
  "bi < length pre \<Longrightarrow> i = length pre \<Longrightarrow> pre ! bi = bv \<Longrightarrow> \<forall>x\<in>set pre. x \<le> bv \<Longrightarrow>
   \<forall>j<bi. pre ! j < bv \<Longrightarrow>
   (\<forall>j<argmax_from xs i bi bv. (pre @ xs) ! j < (pre @ xs) ! argmax_from xs i bi bv)"
proof (induction xs arbitrary: pre i bi bv)
  case Nil
  then show ?case by simp
next
  case (Cons x xs)
  show ?case
  proof (cases "bv < x")
    case True
    have "\<forall>j<argmax_from xs (Suc i) i x.
        ((pre @ [x]) @ xs) ! j < ((pre @ [x]) @ xs) ! argmax_from xs (Suc i) i x"
    proof (rule Cons.IH)
      show "i < length (pre @ [x])" using Cons.prems by simp
      show "Suc i = length (pre @ [x])" using Cons.prems by simp
      show "(pre @ [x]) ! i = x" using Cons.prems by simp
      show "\<forall>y\<in>set (pre @ [x]). y \<le> x" using Cons.prems True by fastforce
      show "\<forall>j<i. (pre @ [x]) ! j < x"
      proof (intro allI impI)
        fix j assume j: "j < i"
        then have "pre ! j \<in> set pre" using Cons.prems by simp
        then have "pre ! j \<le> bv" using Cons.prems by blast
        with True have "pre ! j < x" by simp
        with j Cons.prems show "(pre @ [x]) ! j < x" by (simp add: nth_append)
      qed
    qed
    with True show ?thesis by simp
  next
    case False
    have "\<forall>j<argmax_from xs (Suc i) bi bv.
        ((pre @ [x]) @ xs) ! j < ((pre @ [x]) @ xs) ! argmax_from xs (Suc i) bi bv"
    proof (rule Cons.IH)
      show "bi < length (pre @ [x])" using Cons.prems by simp
      show "Suc i = length (pre @ [x])" using Cons.prems by simp
      show "(pre @ [x]) ! bi = bv" using Cons.prems by (simp add: nth_append)
      show "\<forall>y\<in>set (pre @ [x]). y \<le> bv" using Cons.prems False by auto
      show "\<forall>j<bi. (pre @ [x]) ! j < bv" using Cons.prems by (simp add: nth_append)
    qed
    with False show ?thesis by simp
  qed
qed

lemma argmax_first: "j < argmax xs \<Longrightarrow> xs ! j < xs ! argmax xs"
proof (cases xs)
  case Nil
  then show "j < argmax xs \<Longrightarrow> xs ! j < xs ! argmax xs" by (simp add: argmax_def)
next
  case (Cons a list)
  assume j: "j < argmax xs"
  have "\<forall>j<argmax_from list 1 0 a. ([a] @ list) ! j < ([a] @ list) ! argmax_from list 1 0 a"
    by (rule argmax_from_first) simp_all
  with j Cons show "xs ! j < xs ! argmax xs" by (simp add: argmax_def)
qed

subsection \<open>The sample texts\<close>

lemma graded_tokens_equation: "split_ws (lower ''Subtract five from both sides of the equation'')
   = [''subtract'', ''five'', ''from'', ''both'', ''sides'', ''of'', ''the'', ''equation'']"
  by code_simp

lemma graded_tokens_chunk: "split_ws (lower ''First subtract five from both sides of the equation to isolate x'')
   = [''first'', ''subtract'', ''five'', ''from'', ''both'', ''sides'', ''of'', ''the'', ''equation'',
      ''to'', ''isolate'', ''x'']"
  by code_simp

lemma graded_ngrams_equation: "ngrams 3 [''subtract'', ''five'', ''from'', ''both'', ''sides'', ''of'', ''the'', ''equation'']
  = set [''subtract five from'', ''five from both'', ''from both sides'', ''both sides of'',
         ''sides of the'', ''of the equation'']"
  by (simp add: ngrams_def upt_rec)

lemma graded_ngrams_chunk: "ngrams 3 [''first'', ''subtract'', ''five'', ''from'', ''both'', ''sides'', ''of'', ''the'', ''equation'',
      ''to'', ''isolate'', ''x'']
  = set [''first subtract five'', ''subtract five from'', ''five from both'', ''from both sides'',
         ''both sides of'', ''sides of the'', ''of the equation'', ''the equation to'',
         ''equation to isolate'', ''to isolate x'']"
  by (simp add: ngrams_def upt_rec)


lemma graded_tokens_expression: "split_ws (lower ''Subtract five from both sides of the expression'')
   = [''subtract'', ''five'', ''from'', ''both'', ''sides'', ''of'', ''the'', ''expression'']"
  by code_simp

lemma graded_ngrams_expression: "ngrams 3 [''subtract'', ''five'', ''from'', ''both'', ''sides'', ''of'', ''the'', ''expression'']
  = set [''subtract five from'', ''five from both'', ''from both sides'', ''both sides of'',
         ''sides of the'', ''of the expression'']"
  by (simp add: ngrams_def upt_rec)

lemma graded_overlap_6:
  "compute_ngram_overlap ''Subtract five from both sides of the equation''
     ''First subtract five from both sides of the equation to isolate x'' 3 = 6"
  unfolding compute_ngram_overlap_def Let_def graded_tokens_equation graded_tokens_chunk graded_ngrams_equation graded_ngrams_chunk
  by (simp add: card_insert_if)

lemma graded_overlap_5:
  "compute_ngram_overlap ''Subtract five from both sides of the expression''
     ''First subtract five from both sides of the equation to isolate x'' 3 = 5"
  unfolding compute_ngram_overlap_def Let_def graded_tokens_expression graded_tokens_chunk graded_ngrams_expression graded_ngrams_chunk
  by (simp add: card_insert_if)

lemma graded_similarities:
  "map (cosine_sim graded_validator ''Subtract five from both sides of the equation'')
     graded_chunk_texts = [3 / 10, 8 / 10, 5 / 10]"
  "map (cosine_sim graded_validator ''Subtract five from both sides of the expression'')
     graded_chunk_texts = [3 / 10, 8 / 10, 5 / 10]"
  by (simp_all add: graded_validator_def graded_chunk_texts_def)

lemma graded_best:
  "argmax [3 / 10, 8 / 10, 5 / 10 :: real] = 1"
  "Max (set [3 / 10, 8 / 10, 5 / 10 :: real]) = 8 / 10"
  "graded_chunk_texts ! 1 = ''First subtract five from both sides of the equation to isolate x''"
  "rc_chunk_id (graded_chunks ! 1) = ''notes.txt_p1_c1''"
  by (simp_all add: argmax_def graded_chunk_texts_def graded_chunks_def str_nat.simps
      digit_char_def)

lemma graded_medium_unsupported:
  "ts_confidence (check_textual_support graded_validator
       ''Subtract five from both sides of the expression'' graded_chunk_texts graded_chunks) = MEDIUM"
  "\<not> ts_supported (check_textual_support graded_validator
       ''Subtract five from both sides of the expression'' graded_chunk_texts graded_chunks)"
proof -
  have ne: "graded_chunk_texts \<noteq> []" by (simp add: graded_chunk_texts_def)
  have thr: "sim_threshold graded_validator = 78 / 100" "min_ngram_overlap graded_validator = 6"
    by (simp_all add: graded_validator_def default_sim_threshold_def default_min_ngram_overlap_def)
  show "ts_confidence (check_textual_support graded_validator
       ''Subtract five from both sides of the expression'' graded_chunk_texts graded_chunks) = MEDIUM"
    unfolding check_textual_support_nonempty(3) [OF ne] check_textual_support_nonempty(1) [OF ne]
      graded_similarities graded_best thr
    by simp
  show "\<not> ts_supported (check_textual_support graded_validator
       ''Subtract five from both sides of the expression'' graded_chunk_texts graded_chunks)"
    unfolding check_textual_support_nonempty(2) [OF ne] check_textual_support_nonempty(1) [OF ne]
      graded_similarities graded_best thr graded_overlap_5
    by simp
qed

text \<open>
  Claim C5. For a step and a non-empty list of chunk texts (with the chunk records
  aligned to the texts, as \<open>_validate_step\<close> passes them; the source raises an index
  error when there are records but fewer than texts), the textual check takes the first
  chunk of maximal similarity; the reported overlap is the number of distinct 3-grams of
  lowercased whitespace-separated tokens that the step shares with that chunk; the step
  is supported iff the best similarity reaches \<open>sim_threshold\<close> and the overlap reaches
  \<open>min_ngram_overlap\<close>; the confidence is HIGH iff the best similarity is at least 0.85,
  MEDIUM iff it lies between \<open>sim_threshold\<close> and 0.85, LOW otherwise, whatever the
  overlap is. With the default thresholds some step is reported MEDIUM and yet
  unsupported.
\<close>

theorem textual_support_rule:
  assumes "chunk_texts \<noteq> []"
    and "chunks = [] \<or> length chunk_texts \<le> length chunks"
  shows "(let sims = map (cosine_sim v step) chunk_texts;
              best = Max (set sims);
              best_idx = argmax sims;
              best_chunk = chunk_texts ! best_idx;
              tokens1 = split_ws (lower step);
              tokens2 = split_ws (lower best_chunk);
              overlap = card {g.
                (\<exists>i. i + 3 \<le> length tokens1 \<and>
                   g = join '' '' [tokens1 ! i, tokens1 ! (i + 1), tokens1 ! (i + 2)]) \<and>
                (\<exists>j. j + 3 \<le> length tokens2 \<and>
                   g = join '' '' [tokens2 ! j, tokens2 ! (j + 1), tokens2 ! (j + 2)])};
              r = check_textual_support v step chunk_texts chunks
          in ts_similarity r = best \<and>
             best_idx < length chunk_texts \<and> cosine_sim v step best_chunk = best \<and>
             (\<forall>j<best_idx. cosine_sim v step (chunk_texts ! j) < best) \<and>
             compute_ngram_overlap step best_chunk 3 = overlap \<and>
             ts_token_overlap r = Some overlap \<and>
             (ts_supported r \<longleftrightarrow>
                sim_threshold v \<le> best \<and> min_ngram_overlap v \<le> int overlap) \<and>
             (ts_confidence r = HIGH \<longleftrightarrow> 85 / 100 \<le> best) \<and>
             (ts_confidence r = MEDIUM \<longleftrightarrow> sim_threshold v \<le> best \<and> best < 85 / 100) \<and>
             (ts_confidence r = LOW \<longleftrightarrow> best < 85 / 100 \<and> best < sim_threshold v) \<and>
             ts_chunk_id r = (if chunks = [] then None
                              else Some (rc_chunk_id (chunks ! best_idx)))) \<and>
         (\<exists>v' step' texts' chunks'.
             sim_threshold v' = default_sim_threshold \<and>
             min_ngram_overlap v' = default_min_ngram_overlap \<and> texts' \<noteq> [] \<and>
             ts_confidence (check_textual_support v' step' texts' chunks') = MEDIUM \<and>
             \<not> ts_supported (check_textual_support v' step' texts' chunks'))"
proof -
  let ?sims = "map (cosine_sim v step) chunk_texts"
  let ?best = "Max (set ?sims)"
  let ?i = "argmax ?sims"
  let ?bc = "chunk_texts ! ?i"
  let ?t1 = "split_ws (lower step)"
  let ?t2 = "split_ws (lower ?bc)"
  let ?ov = "card {g.
                (\<exists>i. i + 3 \<le> length ?t1 \<and>
                   g = join '' '' [?t1 ! i, ?t1 ! (i + 1), ?t1 ! (i + 2)]) \<and>
                (\<exists>j. j + 3 \<le> length ?t2 \<and>
                   g = join '' '' [?t2 ! j, ?t2 ! (j + 1), ?t2 ! (j + 2)])}"
  let ?r = "check_textual_support v step chunk_texts chunks"
  have ne: "?sims \<noteq> []" using assms(1) by simp
  have i: "?i < length chunk_texts" using argmax_less [OF ne] by simp
  have sim: "ts_similarity ?r = ?best"
    using check_textual_support_nonempty(1) [OF assms(1)] argmax_Max [OF ne] by simp
  have at: "cosine_sim v step ?bc = ?best"
    using argmax_Max [OF ne] i by simp
  have first: "\<forall>j<?i. cosine_sim v step (chunk_texts ! j) < ?best"
  proof (intro allI impI)
    fix j assume j: "j < ?i"
    then have "?sims ! j < ?sims ! ?i" by (rule argmax_first)
    moreover have "?sims ! j = cosine_sim v step (chunk_texts ! j)" using j i by simp
    moreover have "?sims ! ?i = ?best" using argmax_Max [OF ne] by simp
    ultimately show "cosine_sim v step (chunk_texts ! j) < ?best" by simp
  qed
  have ov: "compute_ngram_overlap step ?bc 3 = ?ov"
    by (rule compute_ngram_overlap_card)
  have tok: "ts_token_overlap ?r = Some (compute_ngram_overlap step ?bc 3)"
    using assms(1) by (simp add: check_textual_support_def Let_def)
  have sup: "ts_supported ?r \<longleftrightarrow> sim_threshold v \<le> ?best \<and>
       min_ngram_overlap v \<le> int (compute_ngram_overlap step ?bc 3)"
    using check_textual_support_nonempty(2) [OF assms(1), of v step chunks] sim by simp
  have conf: "ts_confidence ?r =
       (if 85 / 100 \<le> ?best then HIGH else if sim_threshold v \<le> ?best then MEDIUM else LOW)"
    using check_textual_support_nonempty(3) [OF assms(1), of v step chunks] sim by simp
  have high: "ts_confidence ?r = HIGH \<longleftrightarrow> 85 / 100 \<le> ?best" using conf by simp
  have medium: "ts_confidence ?r = MEDIUM \<longleftrightarrow> sim_threshold v \<le> ?best \<and> ?best < 85 / 100"
    using conf by auto
  have low: "ts_confidence ?r = LOW \<longleftrightarrow> ?best < 85 / 100 \<and> ?best < sim_threshold v"
    using conf by auto
  have cid: "ts_chunk_id ?r = (if chunks = [] then None else Some (rc_chunk_id (chunks ! ?i)))"
    using check_textual_support_chunk_id [OF assms(1), of v step chunks] by simp
  have main: "ts_similarity ?r = ?best \<and>
             ?i < length chunk_texts \<and> cosine_sim v step ?bc = ?best \<and>
             (\<forall>j<?i. cosine_sim v step (chunk_texts ! j) < ?best) \<and>
             compute_ngram_overlap step ?bc 3 = ?ov \<and>
             ts_token_overlap ?r = Some ?ov \<and>
             (ts_supported ?r \<longleftrightarrow>
                sim_threshold v \<le> ?best \<and> min_ngram_overlap v \<le> int ?ov) \<and>
             (ts_confidence ?r = HIGH \<longleftrightarrow> 85 / 100 \<le> ?best) \<and>
             (ts_confidence ?r = MEDIUM \<longleftrightarrow> sim_threshold v \<le> ?best \<and> ?best < 85 / 100) \<and>
             (ts_confidence ?r = LOW \<longleftrightarrow> ?best < 85 / 100 \<and> ?best < sim_threshold v) \<and>
             ts_chunk_id ?r = (if chunks = [] then None else Some (rc_chunk_id (chunks ! ?i)))"
    using sim i at first ov tok sup high medium low cid by (simp only:)
  have ex: "\<exists>v' step' texts' chunks'.
             sim_threshold v' = default_sim_threshold \<and>
             min_ngram_overlap v' = default_min_ngram_overlap \<and> texts' \<noteq> [] \<and>
             ts_confidence (check_textual_support v' step' texts' chunks') = MEDIUM \<and>
             \<not> ts_supported (check_textual_support v' step' texts' chunks')"
  proof (intro exI conjI)
    show "sim_threshold graded_validator = default_sim_threshold"
      by (simp add: graded_validator_def)
    show "min_ngram_overlap graded_validator = default_min_ngram_overlap"
      by (simp add: graded_validator_def)
    show "graded_chunk_texts \<noteq> []" by (simp add: graded_chunk_texts_def)
    show "ts_confidence (check_textual_support graded_validator
       ''Subtract five from both sides of the expression'' graded_chunk_texts graded_chunks) = MEDIUM"
      by (rule graded_medium_unsupported(1))
    show "\<not> ts_supported (check_textual_support graded_validator
       ''Subtract five from both sides of the expression'' graded_chunk_texts graded_chunks)"
      by (rule graded_medium_unsupported(2))
  qed
  show ?thesis unfolding Let_def by (rule conjI [OF main ex])
qed

theorem textual_support_rule_witness:
  "graded_chunk_texts \<noteq> [] \<and>
   (graded_chunks = [] \<or> length graded_chunk_texts \<le> length graded_chunks) \<and>
   ts_supported (check_textual_support graded_validator
      ''Subtract five from both sides of the equation'' graded_chunk_texts graded_chunks) \<and>
   ts_similarity (check_textual_support graded_validator
      ''Subtract five from both sides of the equation'' graded_chunk_texts graded_chunks) = 8 / 10 \<and>
   ts_confidence (check_textual_support graded_validator
      ''Subtract five from both sides of the equation'' graded_chunk_texts graded_chunks) = MEDIUM \<and>
   ts_token_overlap (check_textual_support graded_validator
      ''Subtract five from both sides of the equation'' graded_chunk_texts graded_chunks) = Some 6 \<and>
   ts_chunk_id (check_textual_support graded_validator
      ''Subtract five from both sides of the equation'' graded_chunk_texts graded_chunks)
     = Some ''notes.txt_p1_c1'' \<and>
   \<not> ts_supported (check_textual_support graded_validator
      ''Subtract five from both sides of the expression'' graded_chunk_texts graded_chunks) \<and>
   ts_confidence (check_textual_support graded_validator
      ''Subtract five from both sides of the expression'' graded_chunk_texts graded_chunks) = MEDIUM \<and>
   ts_token_overlap (check_textual_support graded_validator
      ''Subtract five from both sides of the expression'' graded_chunk_texts graded_chunks) = Some 5"
proof -
  have ne: "graded_chunk_texts \<noteq> []" by (simp add: graded_chunk_texts_def)
  have al: "graded_chunks = [] \<or> length graded_chunk_texts \<le> length graded_chunks"
    by (simp add: graded_chunks_def)
  have gne: "graded_chunks \<noteq> []"
    by (simp add: graded_chunks_def graded_chunk_texts_def)
  have thr: "sim_threshold graded_validator = 78 / 100" "min_ngram_overlap graded_validator = 6"
    by (simp_all add: graded_validator_def default_sim_threshold_def default_min_ngram_overlap_def)
  note a = textual_support_rule [OF ne al, of graded_validator
      "''Subtract five from both sides of the equation''", unfolded Let_def, THEN conjunct1]
  note a1 = a [unfolded graded_similarities graded_best]
  note a5 = a1 [THEN conjunct2, THEN conjunct2, THEN conjunct2, THEN conjunct2, THEN conjunct1]
  note a2 = a1 [unfolded a5 [symmetric] graded_overlap_6]
  note b = textual_support_rule [OF ne al, of graded_validator
      "''Subtract five from both sides of the expression''", unfolded Let_def, THEN conjunct1]
  note b1 = b [unfolded graded_similarities graded_best]
  note b5 = b1 [THEN conjunct2, THEN conjunct2, THEN conjunct2, THEN conjunct2, THEN conjunct1]
  note b2 = b1 [unfolded b5 [symmetric] graded_overlap_5]
  have ra: "ts_supported (check_textual_support graded_validator
      ''Subtract five from both sides of the equation'' graded_chunk_texts graded_chunks) \<and>
   ts_similarity (check_textual_support graded_validator
      ''Subtract five from both sides of the equation'' graded_chunk_texts graded_chunks) = 8 / 10 \<and>
   ts_confidence (check_textual_support graded_validator
      ''Subtract five from both sides of the equation'' graded_chunk_texts graded_chunks) = MEDIUM \<and>
   ts_token_overlap (check_textual_support graded_validator
      ''Subtract five from both sides of the equation'' graded_chunk_texts graded_chunks) = Some 6 \<and>
   ts_chunk_id (check_textual_support graded_validator
      ''Subtract five from both sides of the equation'' graded_chunk_texts graded_chunks)
     = Some ''notes.txt_p1_c1''"
    using a2 gne by (simp add: thr)
  have rb: "\<not> ts_supported (check_textual_support graded_validator
      ''Subtract five from both sides of the expression'' graded_chunk_texts graded_chunks) \<and>
   ts_confidence (check_textual_support graded_validator
      ''Subtract five from both sides of the expression'' graded_chunk_texts graded_chunks) = MEDIUM \<and>
   ts_token_overlap (check_textual_support graded_validator
      ''Subtract five from both sides of the expression'' graded_chunk_texts graded_chunks) = Some 5"
    using b2 gne by (simp add: thr)
  from ne al ra rb show ?thesis by simp
qed

section \<open>Properties of the solution parser\<close>
















lemma sample_solution_steps:
  "parse_solution_steps sample_solution =
     [\<lparr>step_num = 1, step_text = ''1. By [doc:a | p:1]'' @ [CHR 0x0A] @ ''x = 2'',
       citations = [''[doc:a | p:1]''], unsupported = False\<rparr>,
      \<lparr>step_num = 1, step_text = ''so (UNSUPPORTED)'', citations = [], unsupported = True\<rparr>,
      \<lparr>step_num = 2, step_text = ''2) end'', citations = [], unsupported = False\<rparr>]"
  unfolding sample_solution_def by code_simp








end
